theory Spec2Isabelle
  imports Main "HOL-Library.Word"
begin

section \<open>Bytes, big numbers and keys\<close>

text \<open>
  The client of the lottery is TypeScript. A \<open>Buffer\<close> is a list of bytes, a \<open>BN\<close> (bn.js)
  an unbounded signed integer, a JavaScript exception a value of \<open>js_error\<close> on the left of
  a sum. A JavaScript string is the list of its UTF-16 code units; a string literal of the
  source, of ASCII characters, is written \<open>js ''...''\<close>.
\<close>

type_synonym byte = "8 word"
type_synonym Buffer = "byte list"
type_synonym BN = int
type_synonym jsstring = "16 word list"

definition js :: "string \<Rightarrow> jsstring" where
  "js s = map (\<lambda>c. of_nat (of_char c)) s"

datatype js_error = Error string | TypeError string | RangeError string

text \<open>\<open>buf.slice(start, end)\<close> for \<open>0 \<le> start \<le> end\<close>: both ends are clamped to the length.\<close>

definition slice :: "Buffer \<Rightarrow> nat \<Rightarrow> nat \<Rightarrow> Buffer" where
  "slice buf start stop = take (stop - start) (drop start buf)"

text \<open>\<open>new BN(bytes, "le")\<close>: the first byte is the least significant; no byte gives 0.\<close>

fun BN_le :: "Buffer \<Rightarrow> BN" where
  "BN_le [] = 0"
| "BN_le (b # bs) = uint b + 256 * BN_le bs"

text \<open>\<open>new BN(bytes)\<close>, big-endian, as a natural number.\<close>

definition BN_be :: "Buffer \<Rightarrow> nat" where
  "BN_be bs = foldl (\<lambda>acc b. 256 * acc + unat b) 0 bs"

text \<open>
  \<open>bn.toNumber()\<close>: bn.js asserts that the magnitude fits 53 bits and raises otherwise.
\<close>

definition toNumber :: "BN \<Rightarrow> js_error + int" where
  "toNumber n =
     (if \<bar>n\<bar> < 2 ^ 53 then Inr n
      else Inl (Error ''Number can only safely store up to 53 bits''))"

text \<open>The \<open>len\<close> low bytes of a natural number, least significant first.\<close>

fun le_bytes :: "nat \<Rightarrow> nat \<Rightarrow> Buffer" where
  "le_bytes 0 n = []"
| "le_bytes (Suc k) n = of_nat (n mod 256) # le_bytes k (n div 256)"

text \<open>
  \<open>bn.toArrayLike(Buffer, "le", len)\<close>: the magnitude in \<open>len\<close> bytes; bn.js asserts that
  it fits.
\<close>

definition toArrayLike_le :: "BN \<Rightarrow> nat \<Rightarrow> js_error + Buffer" where
  "toArrayLike_le n len =
     (if \<bar>n\<bar> < 256 ^ len then Inr (le_bytes len (nat \<bar>n\<bar>))
      else Inl (Error ''byte array longer than desired length''))"

text \<open>
  \<open>Buffer.from(str, "utf8")\<close>. The code points of a string: a high surrogate followed by
  a low surrogate is one code point above \<open>0xFFFF\<close>; any other surrogate stands alone
  and is replaced by \<open>U+FFFD\<close>; every other code unit is its own code point. Each code
  point is written in one to four bytes.
\<close>

definition high_surrogate :: "16 word \<Rightarrow> bool" where
  "high_surrogate u = (0xD800 \<le> unat u \<and> unat u < 0xDC00)"

definition low_surrogate :: "16 word \<Rightarrow> bool" where
  "low_surrogate u = (0xDC00 \<le> unat u \<and> unat u < 0xE000)"

definition unit_code_point :: "16 word \<Rightarrow> nat" where
  "unit_code_point u = (if high_surrogate u \<or> low_surrogate u then 0xFFFD else unat u)"

fun code_points :: "jsstring \<Rightarrow> nat list" where
  "code_points [] = []"
| "code_points [u] = [unit_code_point u]"
| "code_points (u # v # us) =
     (if high_surrogate u \<and> low_surrogate v
      then (0x10000 + (unat u - 0xD800) * 1024 + (unat v - 0xDC00)) # code_points us
      else unit_code_point u # code_points (v # us))"

definition byte_of :: "nat \<Rightarrow> byte" where
  "byte_of n = of_nat n"

definition utf8_bytes :: "nat \<Rightarrow> Buffer" where
  "utf8_bytes c =
     (if c < 0x80 then [byte_of c]
      else if c < 0x800 then [byte_of (0xC0 + c div 64), byte_of (0x80 + c mod 64)]
      else if c < 0x10000 then
        [byte_of (0xE0 + c div 4096), byte_of (0x80 + c div 64 mod 64),
         byte_of (0x80 + c mod 64)]
      else
        [byte_of (0xF0 + c div 262144), byte_of (0x80 + c div 4096 mod 64),
         byte_of (0x80 + c div 64 mod 64), byte_of (0x80 + c mod 64)])"

definition utf8 :: "jsstring \<Rightarrow> Buffer" where
  "utf8 str = concat (map utf8_bytes (code_points str))"

text \<open>
  \<open>buf.toString("utf8")\<close>. The decoder reads one code point from a lead byte and the
  continuation bytes it needs, each within the bounds its lead byte sets (no overlong form,
  no surrogate, nothing above \<open>0x10FFFF\<close>). A byte that cannot start or continue a
  sequence ends the sequence read so far with one \<open>U+FFFD\<close> and is read again as a
  lead byte; a sequence the end of the buffer cuts short gives one \<open>U+FFFD\<close>. A code
  point above \<open>0xFFFF\<close> becomes a surrogate pair.
\<close>

definition continuation :: "nat \<Rightarrow> bool" where
  "continuation b = (0x80 \<le> b \<and> b \<le> 0xBF)"

fun decode_utf8 :: "nat list \<Rightarrow> nat list" where
  "decode_utf8 [] = []"
| "decode_utf8 (b0 # bs) =
     (if b0 < 0x80 then b0 # decode_utf8 bs
      else if 0xC2 \<le> b0 \<and> b0 \<le> 0xDF then
        (case bs of
           [] \<Rightarrow> [0xFFFD]
         | b1 # r1 \<Rightarrow>
             if continuation b1
             then ((b0 - 0xC0) * 64 + (b1 - 0x80)) # decode_utf8 r1
             else 0xFFFD # decode_utf8 bs)
      else if 0xE0 \<le> b0 \<and> b0 \<le> 0xEF then
        (case bs of
           [] \<Rightarrow> [0xFFFD]
         | b1 # r1 \<Rightarrow>
             if (if b0 = 0xE0 then 0xA0 else 0x80) \<le> b1
                \<and> b1 \<le> (if b0 = 0xED then 0x9F else 0xBF)
             then
               (case r1 of
                  [] \<Rightarrow> [0xFFFD]
                | b2 # r2 \<Rightarrow>
                    if continuation b2
                    then ((b0 - 0xE0) * 4096 + (b1 - 0x80) * 64 + (b2 - 0x80))
                           # decode_utf8 r2
                    else 0xFFFD # decode_utf8 r1)
             else 0xFFFD # decode_utf8 bs)
      else if 0xF0 \<le> b0 \<and> b0 \<le> 0xF4 then
        (case bs of
           [] \<Rightarrow> [0xFFFD]
         | b1 # r1 \<Rightarrow>
             if (if b0 = 0xF0 then 0x90 else 0x80) \<le> b1
                \<and> b1 \<le> (if b0 = 0xF4 then 0x8F else 0xBF)
             then
               (case r1 of
                  [] \<Rightarrow> [0xFFFD]
                | b2 # r2 \<Rightarrow>
                    if continuation b2
                    then
                      (case r2 of
                         [] \<Rightarrow> [0xFFFD]
                       | b3 # r3 \<Rightarrow>
                           if continuation b3
                           then ((b0 - 0xF0) * 262144 + (b1 - 0x80) * 4096
                                 + (b2 - 0x80) * 64 + (b3 - 0x80)) # decode_utf8 r3
                           else 0xFFFD # decode_utf8 r2)
                    else 0xFFFD # decode_utf8 r1)
             else 0xFFFD # decode_utf8 bs)
      else 0xFFFD # decode_utf8 bs)"

definition unit_of :: "nat \<Rightarrow> 16 word" where
  "unit_of n = of_nat n"

definition utf16_units :: "nat \<Rightarrow> jsstring" where
  "utf16_units c =
     (if c < 0x10000 then [unit_of c]
      else [unit_of (0xD800 + (c - 0x10000) div 1024),
            unit_of (0xDC00 + (c - 0x10000) mod 1024)])"

definition toString_utf8 :: "Buffer \<Rightarrow> jsstring" where
  "toString_utf8 buf = concat (map utf16_units (decode_utf8 (map unat buf)))"

text \<open>
  A \<open>PublicKey\<close> (web3.js) holds the big-endian number of at most 32 bytes; the constructor
  raises on a longer value. \<open>PublicKey.default\<close> is the key of 32 zero bytes.
\<close>

datatype PublicKey = PublicKey (bn: nat)

definition new_PublicKey :: "Buffer \<Rightarrow> js_error + PublicKey" where
  "new_PublicKey buf =
     (if BN_be buf < 2 ^ 256 then Inr (PublicKey (BN_be buf))
      else Inl (Error ''Invalid public key input''))"

definition PublicKey_default :: PublicKey where
  "PublicKey_default = PublicKey 0"

fun be_bytes :: "nat \<Rightarrow> nat \<Rightarrow> Buffer" where
  "be_bytes 0 n = []"
| "be_bytes (Suc k) n = be_bytes k (n div 256) @ [of_nat (n mod 256)]"

definition toBuffer :: "PublicKey \<Rightarrow> Buffer" where
  "toBuffer k = be_bytes 32 (bn k)"

section \<open>The types package\<close>

definition PROGRAM_ID :: PublicKey where
  "PROGRAM_ID =
     PublicKey 97447237420307755235969499186126559855300856613896533708655775309650751435626"

text \<open>
  The program's address is the base-58 text \<open>FVzki74o5zsTDK1ShhQ6EyR3m2ft7HRgeSkCiEsE8aDf\<close>
  as a number. A Pot is the object the client decodes: the fields of the interface
  \<open>Pot\<close> and the owning manager, which \<open>parsePotAccount\<close> adds.
\<close>

record Pot =
  potManager :: PublicKey
  totalParticipants :: BN
  startTimestamp :: BN
  endTimestamp :: BN
  winningSlot :: BN
  randomnessAccount :: PublicKey

record Ticket =
  participant :: PublicKey
  index :: BN

datatype PotStatus = Active | Drawing | Settled | Closed

text \<open>
  \<open>getPotStatus\<close>; the wall clock \<open>Math.floor(Date.now() / 1000)\<close> is the argument \<open>now\<close>.
  Both \<open>toNumber\<close> calls run before the first comparison.
\<close>

definition getPotStatus :: "int \<Rightarrow> Pot \<Rightarrow> js_error + PotStatus" where
  "getPotStatus now pot =
     (case toNumber (endTimestamp pot) of
        Inl e \<Rightarrow> Inl e
      | Inr endTime \<Rightarrow>
          let hasRandomness = (randomnessAccount pot \<noteq> PublicKey_default) in
          (case toNumber (winningSlot pot) of
             Inl e \<Rightarrow> Inl e
           | Inr w \<Rightarrow>
               let hasWinner = (w > 0) in
               if now < endTime then Inr Active
               else if hasWinner then Inr Settled
               else if hasRandomness then Inr Drawing
               else Inr Closed))"

text \<open>The discriminator table has two entries; any other property reads \<open>undefined\<close>.\<close>

definition DISCRIMINATORS :: "(string \<times> Buffer) list" where
  "DISCRIMINATORS =
     [(''POT'', [238, 118, 60, 175, 178, 191, 59, 58]),
      (''TICKET'', [41, 228, 24, 165, 78, 90, 235, 200])]"

text \<open>The seeds of the derived addresses.\<close>

definition SEEDS_MANAGER :: Buffer where "SEEDS_MANAGER = utf8 (js ''manager'')"
definition SEEDS_POT :: Buffer where "SEEDS_POT = utf8 (js ''pot'')"
definition SEEDS_TICKET :: Buffer where "SEEDS_TICKET = utf8 (js ''ticket'')"
definition SEEDS_TREASURY :: Buffer where "SEEDS_TREASURY = utf8 (js ''treasury'')"
definition SEEDS_ESCROW :: Buffer where "SEEDS_ESCROW = utf8 (js ''escrow'')"
definition SEEDS_WAGER_ESCROW :: Buffer where "SEEDS_WAGER_ESCROW = utf8 (js ''wagerEscrow'')"

section \<open>The utils package: derived addresses\<close>

text \<open>
  The libraries the client calls and the repository does not hold are a record of
  functions: the bump search of \<open>PublicKey.findProgramAddressSync\<close> (SHA-256 and the curve
  test; \<open>None\<close> when no bump is viable), \<open>sha256.array\<close>, and
  \<open>getAssociatedTokenAddress\<close> of spl-token.
\<close>

record Libs =
  bumpSearch :: "Buffer list \<Rightarrow> PublicKey \<Rightarrow> (PublicKey \<times> nat) option"
  sha256 :: "jsstring \<Rightarrow> Buffer"
  getAssociatedTokenAddress :: "PublicKey \<Rightarrow> PublicKey \<Rightarrow> js_error + PublicKey"

text \<open>
  \<open>PublicKey.findProgramAddressSync\<close>: web3.js raises a TypeError, which the bump loop
  passes on, when a seed is longer than 32 bytes.
\<close>

definition findProgramAddressSync ::
  "Libs \<Rightarrow> Buffer list \<Rightarrow> PublicKey \<Rightarrow> js_error + (PublicKey \<times> nat)" where
  "findProgramAddressSync L seeds programId =
     (if list_ex (\<lambda>seed. length seed > 32) seeds
      then Inl (TypeError ''Max seed length exceeded'')
      else (case bumpSearch L seeds programId of
              None \<Rightarrow> Inl (Error ''Unable to find a viable program address nonce'')
            | Some r \<Rightarrow> Inr r))"

definition derivePotManagerPDA ::
  "Libs \<Rightarrow> PublicKey \<Rightarrow> jsstring \<Rightarrow> js_error + (PublicKey \<times> nat)" where
  "derivePotManagerPDA L authority managerName =
     findProgramAddressSync L [SEEDS_MANAGER, toBuffer authority, utf8 managerName] PROGRAM_ID"

definition derivePotPDA :: "Libs \<Rightarrow> PublicKey \<Rightarrow> BN \<Rightarrow> js_error + (PublicKey \<times> nat)" where
  "derivePotPDA L mgr endTs =
     (case toArrayLike_le endTs 8 of
        Inl e \<Rightarrow> Inl e
      | Inr ts \<Rightarrow> findProgramAddressSync L [SEEDS_POT, toBuffer mgr, ts] PROGRAM_ID)"

definition deriveTicketPDA :: "Libs \<Rightarrow> PublicKey \<Rightarrow> BN \<Rightarrow> js_error + (PublicKey \<times> nat)" where
  "deriveTicketPDA L pot idx =
     (case toArrayLike_le idx 8 of
        Inl e \<Rightarrow> Inl e
      | Inr ix \<Rightarrow> findProgramAddressSync L [SEEDS_TICKET, toBuffer pot, ix] PROGRAM_ID)"

definition deriveTreasuryPDA :: "Libs \<Rightarrow> js_error + (PublicKey \<times> nat)" where
  "deriveTreasuryPDA L = findProgramAddressSync L [SEEDS_TREASURY] PROGRAM_ID"

definition deriveEscrowPDA :: "Libs \<Rightarrow> js_error + (PublicKey \<times> nat)" where
  "deriveEscrowPDA L = findProgramAddressSync L [SEEDS_ESCROW] PROGRAM_ID"

section \<open>The sdk package: OpenLottoClient\<close>

text \<open>
  What a client reads through its \<open>Connection\<close>: the data of the account at an address
  (\<open>getAccountInfo\<close>, \<open>None\<close> for no account) and the accounts the program owns
  (\<open>getProgramAccounts\<close> before its filters). One call of a client method reads one
  snapshot of the ledger.
\<close>

record Connection =
  accountData :: "PublicKey \<Rightarrow> Buffer option"
  programAccounts :: "(PublicKey \<times> Buffer) list"

text \<open>The client: its connection and the public key of its wallet, if one is connected.\<close>

record OpenLottoClient =
  connection :: Connection
  wallet :: "PublicKey option"

text \<open>
  A \<open>memcmp\<close> filter of \<open>getProgramAccounts\<close> keeps the accounts whose data holds the given
  bytes at the given offset (the base-58 text is only the transport of those bytes).
\<close>

definition memcmp :: "nat \<Rightarrow> Buffer \<Rightarrow> Buffer \<Rightarrow> bool" where
  "memcmp offset bytes d = (slice d offset (offset + length bytes) = bytes)"

definition getProgramAccounts ::
  "Connection \<Rightarrow> (nat \<times> Buffer) list \<Rightarrow> (PublicKey \<times> Buffer) list" where
  "getProgramAccounts conn filters =
     filter (\<lambda>(pubkey, d). list_all (\<lambda>(offset, bytes). memcmp offset bytes d) filters)
       (programAccounts conn)"

text \<open>
  \<open>Buffer.from(v)\<close> of a table entry: \<open>undefined\<close> raises a TypeError, here with the
  message of Node (\<open>ERR_INVALID_ARG_TYPE\<close>).
\<close>

definition Buffer_from :: "Buffer option \<Rightarrow> js_error + Buffer" where
  "Buffer_from v =
     (case v of
        None \<Rightarrow>
          Inl (TypeError
            (''The first argument must be of type string or an instance of Buffer, ''
             @ ''ArrayBuffer, or Array or an Array-like Object. Received undefined''))
      | Some b \<Rightarrow> Inr b)"

text \<open>\<open>parsePotAccount\<close>: a raise inside the \<open>try\<close> block is the result \<open>null\<close>.\<close>

definition parsePotAccount :: "Buffer \<Rightarrow> Pot option" where
  "parsePotAccount d =
     (case new_PublicKey (slice d 8 40) of
        Inl e \<Rightarrow> None
      | Inr pm \<Rightarrow>
          (case new_PublicKey (slice d 72 104) of
             Inl e \<Rightarrow> None
           | Inr ra \<Rightarrow>
               Some \<lparr>potManager = pm,
                     totalParticipants = BN_le (slice d 40 48),
                     startTimestamp = BN_le (slice d 48 56),
                     endTimestamp = BN_le (slice d 56 64),
                     winningSlot = BN_le (slice d 64 72),
                     randomnessAccount = ra\<rparr>))"

definition parseTicketAccount :: "Buffer \<Rightarrow> Ticket option" where
  "parseTicketAccount d =
     (case new_PublicKey (slice d 8 40) of
        Inl e \<Rightarrow> None
      | Inr p \<Rightarrow> Some \<lparr>participant = p, index = BN_le (slice d 40 48)\<rparr>)"

text \<open>
  The object \<open>parsePotManagerAccount\<close> builds. \<open>data[offset]\<close> past the end is
  \<open>undefined\<close>, the bump \<open>None\<close>; \<open>readUInt32LE\<close> past the end raises a RangeError.
\<close>

record PotManager =
  authority :: PublicKey
  treasury :: PublicKey
  tokenMint :: PublicKey
  rent :: BN
  lastRandomNumber :: BN
  timestamps :: "BN \<times> BN"
  bump :: "byte option"
  name :: jsstring

definition readUInt32LE :: "Buffer \<Rightarrow> nat \<Rightarrow> js_error + nat" where
  "readUInt32LE buf offset =
     (if offset + 4 \<le> length buf then Inr (nat (BN_le (slice buf offset (offset + 4))))
      else Inl (RangeError ''Attempt to access memory outside buffer bounds''))"

definition parsePotManagerAccount :: "Buffer \<Rightarrow> PotManager option" where
  "parsePotManagerAccount d =
     (case new_PublicKey (slice d 8 40) of
        Inl e \<Rightarrow> None
      | Inr au \<Rightarrow>
     (case new_PublicKey (slice d 40 72) of
        Inl e \<Rightarrow> None
      | Inr tr \<Rightarrow>
     (case new_PublicKey (slice d 72 104) of
        Inl e \<Rightarrow> None
      | Inr tm \<Rightarrow>
     (case readUInt32LE d 137 of
        Inl e \<Rightarrow> None
      | Inr nameLen \<Rightarrow>
          Some \<lparr>authority = au, treasury = tr, tokenMint = tm,
                rent = BN_le (slice d 104 112),
                lastRandomNumber = BN_le (slice d 112 120),
                timestamps = (BN_le (slice d 120 128), BN_le (slice d 128 136)),
                bump = (if 136 < length d then Some (d ! 136) else None),
                name = toString_utf8 (slice d 141 (141 + nameLen))\<rparr>))))"

text \<open>The account fetchers. A record with its address is the pair of both.\<close>

definition getPot :: "OpenLottoClient \<Rightarrow> PublicKey \<Rightarrow> Pot option" where
  "getPot c address =
     (case accountData (connection c) address of
        None \<Rightarrow> None
      | Some d \<Rightarrow> parsePotAccount d)"

definition getTicket :: "OpenLottoClient \<Rightarrow> PublicKey \<Rightarrow> Ticket option" where
  "getTicket c address =
     (case accountData (connection c) address of
        None \<Rightarrow> None
      | Some d \<Rightarrow> parseTicketAccount d)"

definition getAllPots :: "OpenLottoClient \<Rightarrow> js_error + (Pot \<times> PublicKey) list" where
  "getAllPots c =
     (case Buffer_from (map_of DISCRIMINATORS ''POT'') of
        Inl e \<Rightarrow> Inl e
      | Inr disc \<Rightarrow>
          Inr (List.map_filter
                 (\<lambda>(pubkey, d). map_option (\<lambda>pot. (pot, pubkey)) (parsePotAccount d))
                 (getProgramAccounts (connection c) [(0, disc)])))"

definition getWinningTicket ::
  "Libs \<Rightarrow> OpenLottoClient \<Rightarrow> PublicKey \<Rightarrow> js_error + (Ticket \<times> PublicKey) option" where
  "getWinningTicket L c pot =
     (case getPot c pot of
        None \<Rightarrow> Inr None
      | Some potData \<Rightarrow>
          if winningSlot potData = 0 then Inr None
          else (case deriveTicketPDA L pot (winningSlot potData) of
                  Inl e \<Rightarrow> Inl e
                | Inr (ticketAddress, b) \<Rightarrow>
                    (case getTicket c ticketAddress of
                       None \<Rightarrow> Inr None
                     | Some ticket \<Rightarrow> Inr (Some (ticket, ticketAddress)))))"

definition getPotManager :: "OpenLottoClient \<Rightarrow> PublicKey \<Rightarrow> PotManager option" where
  "getPotManager c address =
     (case accountData (connection c) address of
        None \<Rightarrow> None
      | Some d \<Rightarrow> parsePotManagerAccount d)"

text \<open>
  \<open>getAllPotManagers\<close>: the filter is built from \<open>DISCRIMINATORS.POT_MANAGER\<close> before
  \<open>getProgramAccounts\<close> is called.
\<close>

definition getAllPotManagers ::
  "OpenLottoClient \<Rightarrow> js_error + (PotManager \<times> PublicKey) list" where
  "getAllPotManagers c =
     (case Buffer_from (map_of DISCRIMINATORS ''POT_MANAGER'') of
        Inl e \<Rightarrow> Inl e
      | Inr disc \<Rightarrow>
          Inr (List.map_filter
                 (\<lambda>(pubkey, d). map_option (\<lambda>m. (m, pubkey)) (parsePotManagerAccount d))
                 (getProgramAccounts (connection c) [(0, disc)])))"

text \<open>\<open>checkRandomnessStatus\<close> on the record of the oracle.\<close>

datatype RandomnessStatus = not_found | initialized | committed | revealed

definition checkRandomnessStatus :: "OpenLottoClient \<Rightarrow> PublicKey \<Rightarrow> RandomnessStatus" where
  "checkRandomnessStatus c account =
     (case accountData (connection c) account of
        None \<Rightarrow> not_found
      | Some d \<Rightarrow>
          let revealSlotOffset = 144 in
          if length d < revealSlotOffset + 8 then initialized
          else
            let revealSlot = BN_le (slice d revealSlotOffset (revealSlotOffset + 8)) in
            if revealSlot \<noteq> 0 then revealed
            else
              let seedSlotOffset = 104;
                  seedSlot = BN_le (slice d seedSlotOffset (seedSlotOffset + 8)) in
              if seedSlot \<noteq> 0 then committed else initialized)"

text \<open>\<open>buf.writeUInt32LE(v, 0)\<close> on a fresh buffer of four bytes; a value past 32 bits raises.\<close>

definition writeUInt32LE :: "nat \<Rightarrow> js_error + Buffer" where
  "writeUInt32LE v =
     (if v < 2 ^ 32 then Inr (le_bytes 4 v)
      else Inl (RangeError ''The value of value is out of range''))"

definition encodeString :: "jsstring \<Rightarrow> js_error + Buffer" where
  "encodeString str =
     (let bytes = utf8 str in
      case writeUInt32LE (length bytes) of
        Inl e \<Rightarrow> Inl e
      | Inr lenBuffer \<Rightarrow> Inr (lenBuffer @ bytes))"

text \<open>
  The instructions a client method hands to \<open>sendTransaction\<close>, which signs and submits
  them: the result of the method here. An instruction of the program names its accounts
  in order and carries its data; the instruction that creates an associated token account
  is built by spl-token from payer, account, owner and mint.
\<close>

record AccountMeta =
  pubkey :: PublicKey
  isSigner :: bool
  isWritable :: bool

datatype TransactionInstruction =
  Instruction (programId: PublicKey) (keys: "AccountMeta list") (ixData: Buffer)
| CreateAssociatedTokenAccount PublicKey PublicKey PublicKey PublicKey

definition SystemProgram_programId :: PublicKey where
  "SystemProgram_programId = PublicKey 0"

definition TOKEN_PROGRAM_ID :: PublicKey where
  "TOKEN_PROGRAM_ID =
     PublicKey 3106054211088883198575105191760876350940303353676611666299516346430146937001"

definition SYSVAR_RENT_PUBKEY :: PublicKey where
  "SYSVAR_RENT_PUBKEY =
     PublicKey 3010411246019284437244212147455409835011261068170932596721577831542904848384"

definition getDiscriminator :: "Libs \<Rightarrow> string \<Rightarrow> Buffer" where
  "getDiscriminator L nm = slice (sha256 L (js (''global:'' @ nm))) 0 8"

definition initPotManager ::
  "Libs \<Rightarrow> OpenLottoClient \<Rightarrow> jsstring \<Rightarrow> PublicKey \<Rightarrow> BN \<Rightarrow> BN
     \<Rightarrow> js_error + TransactionInstruction list" where
  "initPotManager L c managerName mint endTs potDuration =
     (case wallet c of
        None \<Rightarrow> Inl (Error ''Wallet not connected'')
      | Some auth \<Rightarrow>
     (case derivePotManagerPDA L auth managerName of
        Inl e \<Rightarrow> Inl e
      | Inr (mgr, b0) \<Rightarrow>
     (case deriveTreasuryPDA L of
        Inl e \<Rightarrow> Inl e
      | Inr (treasuryTokenAccount, b1) \<Rightarrow>
     (case deriveEscrowPDA L of
        Inl e \<Rightarrow> Inl e
      | Inr (escrowTokenAccount, b2) \<Rightarrow>
     (case derivePotPDA L mgr endTs of
        Inl e \<Rightarrow> Inl e
      | Inr (firstPot, b3) \<Rightarrow>
     (let nextEndTs = endTs + potDuration in
      case derivePotPDA L mgr nextEndTs of
        Inl e \<Rightarrow> Inl e
      | Inr (nextPot, b4) \<Rightarrow>
     (let discriminator = getDiscriminator L ''init_pot_manager'' in
      case toArrayLike_le endTs 8 of
        Inl e \<Rightarrow> Inl e
      | Inr endBytes \<Rightarrow>
     (case toArrayLike_le potDuration 8 of
        Inl e \<Rightarrow> Inl e
      | Inr durationBytes \<Rightarrow>
     (case encodeString managerName of
        Inl e \<Rightarrow> Inl e
      | Inr nameBytes \<Rightarrow>
          Inr [Instruction PROGRAM_ID
                [\<lparr>pubkey = mgr, isSigner = False, isWritable = True\<rparr>,
                 \<lparr>pubkey = mint, isSigner = False, isWritable = False\<rparr>,
                 \<lparr>pubkey = treasuryTokenAccount, isSigner = False, isWritable = True\<rparr>,
                 \<lparr>pubkey = escrowTokenAccount, isSigner = False, isWritable = True\<rparr>,
                 \<lparr>pubkey = firstPot, isSigner = False, isWritable = True\<rparr>,
                 \<lparr>pubkey = nextPot, isSigner = False, isWritable = True\<rparr>,
                 \<lparr>pubkey = auth, isSigner = True, isWritable = True\<rparr>,
                 \<lparr>pubkey = SystemProgram_programId, isSigner = False, isWritable = False\<rparr>,
                 \<lparr>pubkey = TOKEN_PROGRAM_ID, isSigner = False, isWritable = False\<rparr>,
                 \<lparr>pubkey = SYSVAR_RENT_PUBKEY, isSigner = False, isWritable = False\<rparr>]
                (discriminator @ endBytes @ durationBytes @ nameBytes)])))))))))"

definition enterTicket ::
  "Libs \<Rightarrow> OpenLottoClient \<Rightarrow> PublicKey \<Rightarrow> BN \<Rightarrow> PublicKey
     \<Rightarrow> js_error + TransactionInstruction list" where
  "enterTicket L c pot potTotalParticipants mint =
     (case wallet c of
        None \<Rightarrow> Inl (Error ''Wallet not connected'')
      | Some user \<Rightarrow>
     (case deriveTicketPDA L pot potTotalParticipants of
        Inl e \<Rightarrow> Inl e
      | Inr (ticket, b0) \<Rightarrow>
     (case deriveEscrowPDA L of
        Inl e \<Rightarrow> Inl e
      | Inr (escrowTokenAccount, b1) \<Rightarrow>
     (case deriveTreasuryPDA L of
        Inl e \<Rightarrow> Inl e
      | Inr (treasuryTokenAccount, b2) \<Rightarrow>
     (case getAssociatedTokenAddress L mint user of
        Inl e \<Rightarrow> Inl e
      | Inr userTokenAccount \<Rightarrow>
          Inr ((case accountData (connection c) userTokenAccount of
                  None \<Rightarrow> [CreateAssociatedTokenAccount user userTokenAccount user mint]
                | Some ataInfo \<Rightarrow> [])
               @ [Instruction PROGRAM_ID
                    [\<lparr>pubkey = user, isSigner = True, isWritable = True\<rparr>,
                     \<lparr>pubkey = pot, isSigner = False, isWritable = True\<rparr>,
                     \<lparr>pubkey = ticket, isSigner = False, isWritable = True\<rparr>,
                     \<lparr>pubkey = userTokenAccount, isSigner = False, isWritable = True\<rparr>,
                     \<lparr>pubkey = escrowTokenAccount, isSigner = False, isWritable = True\<rparr>,
                     \<lparr>pubkey = treasuryTokenAccount, isSigner = False, isWritable = True\<rparr>,
                     \<lparr>pubkey = mint, isSigner = False, isWritable = False\<rparr>,
                     \<lparr>pubkey = TOKEN_PROGRAM_ID, isSigner = False, isWritable = False\<rparr>,
                     \<lparr>pubkey = SystemProgram_programId, isSigner = False, isWritable = False\<rparr>]
                    (getDiscriminator L ''enter_ticket'')]))))))"

section \<open>The web app: the lottery page\<close>

text \<open>
  The page of one lottery (the screen of the mobile app has the same two functions).
  \<open>fetchData\<close> keeps, as the state \<open>pot\<close>, what \<open>getPot\<close> returns for the address
  of the page, read by a client without a wallet. \<open>handleEnter\<close> returns at once without
  a connected wallet (its key and its signing functions, here the key) or without a
  fetched Pot; otherwise it enters through a client of that wallet, with the participant
  count of the fetched Pot and the mint of wrapped SOL,
  \<open>So11111111111111111111111111111111111111112\<close>. Its result here is the result of that
  call of \<open>enterTicket\<close>, which the handler reports.
\<close>

definition tokenMint :: PublicKey where
  "tokenMint =
     PublicKey 2988679396378646993494765771507681406623014513651778753134412041978399162369"

definition fetchData :: "Connection \<Rightarrow> PublicKey \<Rightarrow> Pot option" where
  "fetchData conn potAddress = getPot \<lparr>connection = conn, wallet = None\<rparr> potAddress"

definition handleEnter ::
  "Libs \<Rightarrow> Connection \<Rightarrow> PublicKey option \<Rightarrow> PublicKey \<Rightarrow> Pot option
     \<Rightarrow> (js_error + TransactionInstruction list) option" where
  "handleEnter L conn publicKey potAddress pot =
     (case publicKey of
        None \<Rightarrow> None
      | Some k \<Rightarrow>
     (case pot of
        None \<Rightarrow> None
      | Some p \<Rightarrow>
          Some (enterTicket L \<lparr>connection = conn, wallet = Some k\<rparr> potAddress
                  (totalParticipants p) tokenMint)))"


section \<open>The program on the ledger\<close>

text \<open>
  The operations Init, AdvanceRound, Enter, DrawLottery and SettleLottery run in the
  on-chain program (\<open>programs/open-lotto\<close>), which is not among the sources: the client
  above only builds their instructions. The definitions of this section are modelled
  from the specification. Custody (Escrow, Treasury, the payment of an entry and
  ClaimPrize, which writes no record) is left out.
\<close>

text \<open>
  Modelled from the spec: the addresses of the on-chain records (the program's account
  derivation is missing). An address is a collision-free function of the identifying
  fields, so the fields themselves stand for it: a manager is one per (authority, name),
  a Pot one per (manager, end timestamp), a Ticket one per (pot, index). A name is what
  the program stores of it, the list of its bytes.
\<close>

type_synonym manager_id = "PublicKey \<times> string"
type_synonym pot_id = "manager_id \<times> nat"
type_synonym ticket_id = "pot_id \<times> nat"

text \<open>
  Modelled from the spec: the PotManager record of the missing program: authority,
  treasury reference, token-unit identifier, round duration in seconds, the pair of
  timestamps (current-round end, next-round end), name.
\<close>

record manager_rec =
  mgr_authority :: PublicKey
  mgr_treasury :: PublicKey
  mgr_token :: PublicKey
  mgr_duration :: nat
  mgr_timestamps :: "nat \<times> nat"
  mgr_name :: string

text \<open>
  Modelled from the spec: the Pot record of the missing program: owning manager,
  participant count, start timestamp, end timestamp, winning index (0 = undetermined),
  randomness-request reference (\<open>None\<close> = none yet).
\<close>

record pot_rec =
  pot_manager :: manager_id
  pot_participants :: nat
  pot_start :: nat
  pot_end :: nat
  pot_winning :: nat
  pot_request :: "PublicKey option"

text \<open>
  Modelled from the spec: the Ticket record of the missing program: owning participant
  key and index.
\<close>

record ticket_rec =
  ticket_owner :: PublicKey
  ticket_index :: nat

text \<open>
  Modelled from the spec: the ledger state the missing program works on, the records at
  their addresses.
\<close>

record ledger =
  managers :: "manager_id \<rightharpoonup> manager_rec"
  pots :: "pot_id \<rightharpoonup> pot_rec"
  tickets :: "ticket_id \<rightharpoonup> ticket_rec"

text \<open>
  Modelled from the spec: the ledger before any operation of the missing program: no
  record.
\<close>

definition empty_ledger :: ledger where
  "empty_ledger = \<lparr>managers = Map.empty, pots = Map.empty, tickets = Map.empty\<rparr>"

text \<open>
  Modelled from the spec: the derived status of a Pot in the missing program, the table
  of section 3: Active while now is before the end; then Settled if the winning index is
  set, Drawing if a randomness request is set, Closed otherwise.
\<close>

definition pot_status :: "nat \<Rightarrow> pot_rec \<Rightarrow> PotStatus" where
  "pot_status now p =
     (if now < pot_end p then Active
      else if pot_winning p \<noteq> 0 then Settled
      else if pot_request p \<noteq> None then Drawing
      else Closed)"

text \<open>
  Modelled from the spec: the time window of a Pot of the missing program (glossary: a
  round accepts entries between its start and its end timestamp): a Pot is open for entry
  from its start timestamp on, while its derived status is Active.
\<close>

definition open_for_entry :: "nat \<Rightarrow> pot_rec \<Rightarrow> bool" where
  "open_for_entry now p \<longleftrightarrow> pot_start p \<le> now \<and> pot_status now p = Active"

text \<open>
  Modelled from the spec: the failure conditions of the missing program, the taxonomy of
  section 7 (without the custody errors), and the two failures of the host ledger the
  operations rely on: a record created at an address in use, a record that does not exist.
\<close>

datatype lotto_error =
  EndTimestampNotInFuture | NameTooLong | RoundNotEnded | RoundNotActive | RoundNotClosed
| RoundNotDrawing | RequestNotRevealed | RequestAlreadyExists | WinningIndexAlreadySet
| RequestNotOfThisRound | AddressInUse | NoSuchRecord

text \<open>
  Modelled from the spec: the creation of a Pot by the missing program, with its start
  and end timestamps, zero participants, no winner and no request; it fails when the
  address already exists.
\<close>

definition create_pot ::
  "manager_id \<Rightarrow> nat \<Rightarrow> nat \<Rightarrow> ledger \<Rightarrow> lotto_error + ledger" where
  "create_pot m b e s =
     (if pots s (m, e) \<noteq> None then Inl AddressInUse
      else Inr (s\<lparr>pots := (pots s)((m, e) \<mapsto>
             \<lparr>pot_manager = m, pot_participants = 0, pot_start = b, pot_end = e,
              pot_winning = 0, pot_request = None\<rparr>)\<rparr>))"

text \<open>
  Modelled from the spec: the operations of the missing program as submitted
  instructions. Init carries authority, treasury, token, end timestamp, duration and
  name; AdvanceRound the manager; Enter the pot and the participant; DrawLottery the pot
  and the randomness account; SettleLottery the pot, the randomness account and the value
  that account carries at the oracle (\<open>None\<close> while it is not revealed).
\<close>

datatype operation =
  Init PublicKey PublicKey PublicKey nat nat string
| AdvanceRound manager_id
| Enter pot_id PublicKey
| DrawLottery pot_id PublicKey
| SettleLottery pot_id PublicKey "nat option"

text \<open>
  Modelled from the spec: one operation of the missing program, run at the caller-observed
  time \<open>now\<close> as a single atomic step: the new ledger, or the failure. Init (4.2) fails
  unless the end timestamp is strictly in the future and the name has at most 32 bytes,
  and because the address already exists on re-invocation; it creates the manager, the
  Pot ending at the end timestamp and the Pot ending a duration later. AdvanceRound (4.2)
  runs once the current Pot's end has passed: the next Pot becomes current and a Pot
  ending at the old next end plus the duration is created. The specification gives the
  start timestamp of a Pot no value; here the rounds of a manager follow one another, so
  that one round is open at a time (section 1): the first Pot starts when Init runs, and
  every other Pot starts when the Pot before it ends. Enter (4.3) fails unless the Pot is
  open for entry, creates the Ticket at the next sequential index and increments the
  participant count. DrawLottery (4.4) fails unless the Pot is Closed and stores the
  request. SettleLottery (4.4) fails unless the request belongs to the Pot and is
  revealed, and refuses to run once the winning index is set; the winning index is the
  revealed value modulo the participant count, left at 0 for no participant.
\<close>

fun exec :: "nat \<Rightarrow> operation \<Rightarrow> ledger \<Rightarrow> lotto_error + ledger" where
  "exec now (Init auth trsy tok endTs dur nm) s =
     (if endTs \<le> now then Inl EndTimestampNotInFuture
      else if 32 < length nm then Inl NameTooLong
      else if managers s (auth, nm) \<noteq> None then Inl AddressInUse
      else
        (case create_pot (auth, nm) now endTs
                (s\<lparr>managers := (managers s)((auth, nm) \<mapsto>
                     \<lparr>mgr_authority = auth, mgr_treasury = trsy, mgr_token = tok,
                      mgr_duration = dur, mgr_timestamps = (endTs, endTs + dur),
                      mgr_name = nm\<rparr>)\<rparr>) of
           Inl e \<Rightarrow> Inl e
         | Inr s1 \<Rightarrow> create_pot (auth, nm) endTs (endTs + dur) s1))"
| "exec now (AdvanceRound m) s =
     (case managers s m of
        None \<Rightarrow> Inl NoSuchRecord
      | Some mg \<Rightarrow>
          (case mgr_timestamps mg of
             (cur, nxt) \<Rightarrow>
               if now < cur then Inl RoundNotEnded
               else
                 (case create_pot m nxt (nxt + mgr_duration mg) s of
                    Inl e \<Rightarrow> Inl e
                  | Inr s1 \<Rightarrow>
                      Inr (s1\<lparr>managers := (managers s1)(m \<mapsto>
                             mg\<lparr>mgr_timestamps := (nxt, nxt + mgr_duration mg)\<rparr>)\<rparr>))))"
| "exec now (Enter pid who) s =
     (case pots s pid of
        None \<Rightarrow> Inl NoSuchRecord
      | Some p \<Rightarrow>
          if \<not> open_for_entry now p then Inl RoundNotActive
          else if tickets s (pid, pot_participants p) \<noteq> None then Inl AddressInUse
          else
            Inr (s\<lparr>tickets := (tickets s)((pid, pot_participants p) \<mapsto>
                      \<lparr>ticket_owner = who, ticket_index = pot_participants p\<rparr>),
                   pots := (pots s)(pid \<mapsto>
                      p\<lparr>pot_participants := pot_participants p + 1\<rparr>)\<rparr>))"
| "exec now (DrawLottery pid acct) s =
     (case pots s pid of
        None \<Rightarrow> Inl NoSuchRecord
      | Some p \<Rightarrow>
          if pot_request p \<noteq> None then Inl RequestAlreadyExists
          else if pot_status now p \<noteq> Closed then Inl RoundNotClosed
          else Inr (s\<lparr>pots := (pots s)(pid \<mapsto> p\<lparr>pot_request := Some acct\<rparr>)\<rparr>))"
| "exec now (SettleLottery pid acct shown) s =
     (case pots s pid of
        None \<Rightarrow> Inl NoSuchRecord
      | Some p \<Rightarrow>
          if pot_winning p \<noteq> 0 then Inl WinningIndexAlreadySet
          else if pot_status now p \<noteq> Drawing then Inl RoundNotDrawing
          else if pot_request p \<noteq> Some acct then Inl RequestNotOfThisRound
          else
            (case shown of
               None \<Rightarrow> Inl RequestNotRevealed
             | Some v \<Rightarrow>
                 Inr (s\<lparr>pots := (pots s)(pid \<mapsto>
                        p\<lparr>pot_winning :=
                            (if pot_participants p = 0 then 0
                             else v mod pot_participants p)\<rparr>)\<rparr>)))"

text \<open>
  Modelled from the spec: the ledger after an instruction of the missing program was
  submitted (section 5: an instruction either lands or does not; a failure leaves no
  partially applied state).
\<close>

definition submit :: "nat \<Rightarrow> operation \<Rightarrow> ledger \<Rightarrow> ledger" where
  "submit now op s = (case exec now op s of Inl e \<Rightarrow> s | Inr s' \<Rightarrow> s')"

text \<open>
  Modelled from the spec: the reachable states of the missing program: the empty ledger
  and every state a successful operation, run at any time, leaves.
\<close>

inductive reachable :: "ledger \<Rightarrow> bool" where
  start: "reachable empty_ledger"
| step: "reachable s \<Longrightarrow> exec now op s = Inr s' \<Longrightarrow> reachable s'"

text \<open>
  Modelled from the spec: the Pots of a manager that are open for entry at a time, named
  by their end timestamps: the Pots that have started and whose end is in the future,
  the ones Enter accepts.
\<close>

definition open_pots :: "nat \<Rightarrow> manager_id \<Rightarrow> ledger \<Rightarrow> nat set" where
  "open_pots now m s = {e. \<exists>p. pots s (m, e) = Some p \<and> open_for_entry now p}"

text \<open>
  What every reachable ledger satisfies: a Pot ends at the timestamp of its address and
  belongs to an existing manager, ending no later than that manager's current end or at
  its next end; the two ends of a manager are a positive duration apart and both Pots
  exist; a Ticket lies below the participant count of its existing Pot.
\<close>

definition ledger_inv :: "ledger \<Rightarrow> bool" where
  "ledger_inv s \<longleftrightarrow>
     (\<forall>m e p. pots s (m, e) = Some p \<longrightarrow>
        pot_end p = e \<and>
        (\<exists>mg. managers s m = Some mg \<and>
           (e \<le> fst (mgr_timestamps mg) \<or> e = snd (mgr_timestamps mg))))
     \<and> (\<forall>m mg. managers s m = Some mg \<longrightarrow>
        0 < mgr_duration mg \<and>
        snd (mgr_timestamps mg) = fst (mgr_timestamps mg) + mgr_duration mg \<and>
        pots s (m, fst (mgr_timestamps mg)) \<noteq> None \<and>
        pots s (m, snd (mgr_timestamps mg)) \<noteq> None)
     \<and> (\<forall>pid i t. tickets s (pid, i) = Some t \<longrightarrow>
        (\<exists>p. pots s pid = Some p \<and> i < pot_participants p))"

text \<open>
  What every reachable ledger satisfies beyond that: the current Pot of a manager started
  before its end, the next Pot starts when the current one ends, and every other Pot of
  the manager ended by the time the current one started.
\<close>

definition window_inv :: "ledger \<Rightarrow> bool" where
  "window_inv s \<longleftrightarrow>
     (\<forall>m mg. managers s m = Some mg \<longrightarrow>
        (\<exists>pc pn. pots s (m, fst (mgr_timestamps mg)) = Some pc
           \<and> pots s (m, snd (mgr_timestamps mg)) = Some pn
           \<and> pot_start pc < fst (mgr_timestamps mg)
           \<and> pot_start pn = fst (mgr_timestamps mg)
           \<and> (\<forall>e p. pots s (m, e) = Some p \<longrightarrow>
                  e = fst (mgr_timestamps mg) \<or> e = snd (mgr_timestamps mg)
                  \<or> e \<le> pot_start pc)))"


section \<open>The properties' own notions\<close>

text \<open>
  The 8-byte little-endian value at a byte offset of a record, in the words of the
  specification of the oracle's record: byte \<open>off + i\<close> weighs \<open>256 ^ i\<close>.
\<close>

definition le64_at :: "Buffer \<Rightarrow> nat \<Rightarrow> int" where
  "le64_at d off = (\<Sum>i<8. uint (d ! (off + i)) * 256 ^ i)"

text \<open>
  The derived status of a Pot record at a wall-clock time, in the words of the
  specification's table: Active while now is before the end timestamp; otherwise Settled
  if the winning index is set (not zero); otherwise Drawing if the randomness request is
  set (not the default key, the client's null); otherwise Closed.
\<close>

definition derived_status :: "int \<Rightarrow> Pot \<Rightarrow> PotStatus" where
  "derived_status now pot =
     (if now < endTimestamp pot then Active
      else if winningSlot pot \<noteq> 0 then Settled
      else if randomnessAccount pot \<noteq> PublicKey_default then Drawing
      else Closed)"

text \<open>
  A well-formed string: every surrogate code unit is half of a pair, a high surrogate
  directly followed by a low one. A Unicode scalar value: a code point that is not a
  surrogate.
\<close>

fun well_formed :: "jsstring \<Rightarrow> bool" where
  "well_formed [] = True"
| "well_formed [u] = (\<not> high_surrogate u \<and> \<not> low_surrogate u)"
| "well_formed (u # v # us) =
     (if high_surrogate u \<and> low_surrogate v then well_formed us
      else \<not> high_surrogate u \<and> \<not> low_surrogate u \<and> well_formed (v # us))"

definition scalar :: "nat \<Rightarrow> bool" where
  "scalar c = (c < 0x110000 \<and> \<not> (0xD800 \<le> c \<and> c < 0xE000))"


section \<open>Concrete inputs\<close>

text \<open>
  An oracle record of 152 bytes whose committed slot (offset 104) is 1 and whose revealed
  slot (offset 144) is 0, and a client whose connection holds it at key 7.
\<close>

definition committed_record :: Buffer where
  "committed_record = replicate 104 0 @ [1] @ replicate 47 0"

definition oracle_client :: OpenLottoClient where
  "oracle_client =
     \<lparr>connection =
        \<lparr>accountData = (\<lambda>k. if k = PublicKey 7 then Some committed_record else None),
         programAccounts = []\<rparr>,
      wallet = None\<rparr>"

text \<open>
  A Pot whose winning slot needs 54 bits, and a Pot of five participants that ended at
  100 with the winning slot 2.
\<close>

definition unsafe_pot :: Pot where
  "unsafe_pot =
     \<lparr>potManager = PublicKey 1, totalParticipants = 0, startTimestamp = 0,
      endTimestamp = 100, winningSlot = 2 ^ 53, randomnessAccount = PublicKey_default\<rparr>"

definition settled_pot :: Pot where
  "settled_pot =
     \<lparr>potManager = PublicKey 1, totalParticipants = 5, startTimestamp = 0,
      endTimestamp = 100, winningSlot = 2, randomnessAccount = PublicKey 9\<rparr>"

text \<open>
  The account of a Ticket (its discriminator, the participant 9, the index 3) and a client
  whose connection holds it at key 5.
\<close>

definition ticket_record :: Buffer where
  "ticket_record =
     [41, 228, 24, 165, 78, 90, 235, 200] @ replicate 31 0 @ [9] @ le_bytes 8 3"

definition ticket_client :: OpenLottoClient where
  "ticket_client =
     \<lparr>connection =
        \<lparr>accountData = (\<lambda>k. if k = PublicKey 5 then Some ticket_record else None),
         programAccounts = [(PublicKey 5, ticket_record)]\<rparr>,
      wallet = None\<rparr>"

text \<open>
  A stand-in for the libraries, for running the client at concrete inputs: every bump
  search answers key 11 with bump 255, every hash is 32 zero bytes, every associated
  token account is key 12.
\<close>

definition stub_libs :: Libs where
  "stub_libs =
     \<lparr>bumpSearch = (\<lambda>seeds programId. Some (PublicKey 11, 255)),
      sha256 = (\<lambda>s. replicate 32 0),
      getAssociatedTokenAddress = (\<lambda>mint owner. Inr (PublicKey 12))\<rparr>"

text \<open>
  A round of one participant that ended at 100 and drew the index 0: the Pot at key 3
  (participant count 1, end timestamp 100, winning slot 0) and the Ticket of index 0 at
  key 11, where the stand-in libraries derive it.
\<close>

definition zero_slot_pot :: Buffer where
  "zero_slot_pot = replicate 40 0 @ [1] @ replicate 15 0 @ [100] @ replicate 47 0"

definition zero_slot_client :: OpenLottoClient where
  "zero_slot_client =
     \<lparr>connection =
        \<lparr>accountData =
           (\<lambda>k. if k = PublicKey 3 then Some zero_slot_pot
                else if k = PublicKey 11 then Some (replicate 48 0)
                else None),
         programAccounts = []\<rparr>,
      wallet = None\<rparr>"

text \<open>
  The lottery "daily" of authority 1, initialised at time 1000 to end its first round at
  1300 with rounds of 3600 seconds, and the ledger this leaves: the first Pot, open from
  1000 to 1300, and the second, open from 1300 to 4900.
\<close>

definition daily_init :: operation where
  "daily_init = Init (PublicKey 1) (PublicKey 2) (PublicKey 3) 1300 3600 ''daily''"

definition after_init :: ledger where
  "after_init =
     \<lparr>managers = [(PublicKey 1, ''daily'') \<mapsto>
          \<lparr>mgr_authority = PublicKey 1, mgr_treasury = PublicKey 2, mgr_token = PublicKey 3,
           mgr_duration = 3600, mgr_timestamps = (1300, 4900), mgr_name = ''daily''\<rparr>],
      pots = [((PublicKey 1, ''daily''), 1300) \<mapsto>
          \<lparr>pot_manager = (PublicKey 1, ''daily''), pot_participants = 0, pot_start = 1000,
           pot_end = 1300, pot_winning = 0, pot_request = None\<rparr>,
        ((PublicKey 1, ''daily''), 4900) \<mapsto>
          \<lparr>pot_manager = (PublicKey 1, ''daily''), pot_participants = 0, pot_start = 1300,
           pot_end = 4900, pot_winning = 0, pot_request = None\<rparr>],
      tickets = Map.empty\<rparr>"

text \<open>A client with the wallet of key 1 connected, on a ledger without accounts.\<close>

definition wallet_client :: OpenLottoClient where
  "wallet_client =
     \<lparr>connection = \<lparr>accountData = (\<lambda>k. None), programAccounts = []\<rparr>,
      wallet = Some (PublicKey 1)\<rparr>"

text \<open>
  The first Pot of the lottery "daily", a name of 33 bytes, and the ledger after the
  AdvanceRound of the lottery "daily" at time 2000: the Pot from 1300 to 4900 is current,
  the new Pot is open from 4900 to 8500.
\<close>

definition daily_first :: pot_id where
  "daily_first = ((PublicKey 1, ''daily''), 1300)"

definition long_name :: string where
  "long_name = replicate 33 CHR ''x''"

definition daily_advanced :: ledger where
  "daily_advanced =
     \<lparr>managers = [(PublicKey 1, ''daily'') \<mapsto>
          \<lparr>mgr_authority = PublicKey 1, mgr_treasury = PublicKey 2, mgr_token = PublicKey 3,
           mgr_duration = 3600, mgr_timestamps = (4900, 8500), mgr_name = ''daily''\<rparr>],
      pots = [((PublicKey 1, ''daily''), 1300) \<mapsto>
          \<lparr>pot_manager = (PublicKey 1, ''daily''), pot_participants = 0, pot_start = 1000,
           pot_end = 1300, pot_winning = 0, pot_request = None\<rparr>,
        ((PublicKey 1, ''daily''), 4900) \<mapsto>
          \<lparr>pot_manager = (PublicKey 1, ''daily''), pot_participants = 0, pot_start = 1300,
           pot_end = 4900, pot_winning = 0, pot_request = None\<rparr>,
        ((PublicKey 1, ''daily''), 8500) \<mapsto>
          \<lparr>pot_manager = (PublicKey 1, ''daily''), pot_participants = 0, pot_start = 4900,
           pot_end = 8500, pot_winning = 0, pot_request = None\<rparr>],
      tickets = Map.empty\<rparr>"

text \<open>
  One entry through the lottery page. The wallet is the key
  \<open>6x5SYnLroiN7WYq8NQYU9KHcH4YjpBbwpUfVu3EB7ieH\<close>, the base point of the curve. The Pot
  at key 3 has two participants and ends at 100. The libraries are the table of what
  web3.js, js-sha256 and spl-token answer at the inputs of this entry: the addresses
  derived for the program from the seeds "ticket", the key 3 and the index 2
  (\<open>6pwDdRV7wPzecQmKXvySZTNwtBNsFtPuEpWhwVvm8PTh\<close>, bump 255), from "escrow"
  (\<open>7LnArcGERJH6ZGjKqPgPR5nwvZ3WJiLSTF7MQXQ1rgD\<close>, bump 254) and from "treasury"
  (\<open>4rmEuAuFLwbxRd4mR63xDWx9xEdRTTc4tZBz3vy48LPT\<close>, bump 252), the SHA-256 digest of
  "global:enter_ticket", and the wallet's token account for wrapped SOL
  (\<open>37YSQ8UamenT7bx65bbMrxjSfxuqjBS4dCGkeZZpXa16\<close>). The table has no other entry:
  elsewhere it finds no address, gives no digest and refuses the owner.
\<close>

definition entry_wallet :: PublicKey where
  "entry_wallet =
     PublicKey 39984455814760748732201855760812543180582291579854007269875196977732502578790"

definition entry_pot :: Buffer where
  "entry_pot =
     [238, 118, 60, 175, 178, 191, 59, 58] @ replicate 32 0 @ [2] @ replicate 15 0
     @ [100] @ replicate 47 0"

definition entry_connection :: Connection where
  "entry_connection =
     \<lparr>accountData = (\<lambda>k. if k = PublicKey 3 then Some entry_pot else None),
      programAccounts = [(PublicKey 3, entry_pot)]\<rparr>"

definition entry_ticket :: PublicKey where
  "entry_ticket =
     PublicKey 39156929729294697488423751109110411993704911930275812780850239646884973370140"

definition entry_libs :: Libs where
  "entry_libs =
     \<lparr>bumpSearch = (\<lambda>seeds programId.
        if programId = PROGRAM_ID
           \<and> seeds = [[116, 105, 99, 107, 101, 116], replicate 31 0 @ [3],
                       [2, 0, 0, 0, 0, 0, 0, 0]]
        then Some (entry_ticket, 255)
        else if programId = PROGRAM_ID \<and> seeds = [[101, 115, 99, 114, 111, 119]]
        then Some (PublicKey
          734741241448183383027553431277473750227495116060244862364544705737514988982, 254)
        else if programId = PROGRAM_ID
           \<and> seeds = [[116, 114, 101, 97, 115, 117, 114, 121]]
        then Some (PublicKey
          25927672080648667024141798927007250153137146454913941682627234365367238032714, 252)
        else None),
      sha256 = (\<lambda>s.
        if s = js ''global:enter_ticket''
        then [42, 17, 11, 16, 1, 34, 133, 24, 93, 13, 149, 236, 177, 224, 187, 141,
              96, 138, 22, 176, 222, 124, 66, 221, 31, 141, 31, 92, 187, 122, 245, 204]
        else []),
      getAssociatedTokenAddress = (\<lambda>mint owner.
        if mint = tokenMint \<and> owner = entry_wallet
        then Inr (PublicKey
          14199099760926189176236315454014193703181802579676423747372966195221780895177)
        else Inl (Error ''TokenOwnerOffCurveError''))\<rparr>"

text \<open>A name that is one high surrogate with no low surrogate after it.\<close>

definition lone_surrogate :: jsstring where
  "lone_surrogate = [0xD800]"


section \<open>Buffers and little-endian numbers\<close>

lemma BN_le_sum: "BN_le bs = (\<Sum>i<length bs. uint (bs ! i) * 256 ^ i)"
proof (induction bs)
  case Nil
  then show ?case by simp
next
  case (Cons b bs)
  have "(\<Sum>i<Suc (length bs). uint ((b # bs) ! i) * 256 ^ i)
      = uint b + (\<Sum>i<length bs. uint (bs ! i) * 256 ^ Suc i)"
    by (simp add: sum.lessThan_Suc_shift del: sum.lessThan_Suc)
  also have "\<dots> = uint b + 256 * (\<Sum>i<length bs. uint (bs ! i) * 256 ^ i)"
    by (simp add: sum_distrib_left mult.assoc mult.left_commute)
  finally show ?case using Cons by simp
qed

lemma length_slice: "length (slice d a b) = min (b - a) (length d - a)"
  by (simp add: slice_def)

lemma nth_slice: "a + i < length d \<Longrightarrow> i < b - a \<Longrightarrow> slice d a b ! i = d ! (a + i)"
  by (simp add: slice_def)

lemma BN_le_slice8: "off + 8 \<le> length d \<Longrightarrow> BN_le (slice d off (off + 8)) = le64_at d off"
  by (simp add: BN_le_sum length_slice nth_slice le64_at_def)

lemma le64_at_cong:
  "(\<And>i. i < 8 \<Longrightarrow> d' ! (off + i) = d ! (off + i)) \<Longrightarrow> le64_at d' off = le64_at d off"
  by (simp add: le64_at_def)

section \<open>The status of a randomness request\<close>

lemma checkRandomnessStatus_slots:
  assumes "accountData (connection c) a = Some d" and "152 \<le> length d"
  shows "checkRandomnessStatus c a =
     (if le64_at d 144 \<noteq> 0 then revealed
      else if le64_at d 104 \<noteq> 0 then committed else initialized)"
proof -
  have r: "BN_le (slice d 144 (144 + 8)) = le64_at d 144"
    using assms(2) by (intro BN_le_slice8) simp
  have s: "BN_le (slice d 104 (104 + 8)) = le64_at d 104"
    using assms(2) by (intro BN_le_slice8) simp
  show ?thesis
    using assms r s by (simp add: checkRandomnessStatus_def Let_def)
qed

text \<open>
  Claim C3. For a request record of at least 152 bytes, \<open>checkRandomnessStatus\<close> answers
  \<open>revealed\<close> exactly when the 8-byte little-endian value at offset 144 is not zero, and
  otherwise \<open>committed\<close> exactly when the 8-byte little-endian value at offset 104 is not
  zero; two such records that agree on the bytes 104 to 111 and 144 to 151 get the same
  answer, whatever their other bytes, their addresses and their clients are.
\<close>

theorem checkRandomnessStatus_two_slots:
  assumes "accountData (connection c) a = Some d" and "152 \<le> length d"
  shows "(checkRandomnessStatus c a = revealed \<longleftrightarrow> le64_at d 144 \<noteq> 0)
       \<and> (le64_at d 144 = 0 \<longrightarrow>
            (checkRandomnessStatus c a = committed \<longleftrightarrow> le64_at d 104 \<noteq> 0))
       \<and> (\<forall>(c'::OpenLottoClient) a' d'.
            accountData (connection c') a' = Some d' \<and> 152 \<le> length d'
            \<and> (\<forall>i. (104 \<le> i \<and> i < 112) \<or> (144 \<le> i \<and> i < 152) \<longrightarrow> d' ! i = d ! i)
            \<longrightarrow> checkRandomnessStatus c' a' = checkRandomnessStatus c a)"
proof (intro conjI allI impI)
  show "checkRandomnessStatus c a = revealed \<longleftrightarrow> le64_at d 144 \<noteq> 0"
    by (simp add: checkRandomnessStatus_slots [OF assms])
  show "checkRandomnessStatus c a = committed \<longleftrightarrow> le64_at d 104 \<noteq> 0"
    if "le64_at d 144 = 0"
    using that by (simp add: checkRandomnessStatus_slots [OF assms])
next
  fix c' :: OpenLottoClient and a' d'
  assume h: "accountData (connection c') a' = Some d' \<and> 152 \<le> length d'
     \<and> (\<forall>i. (104 \<le> i \<and> i < 112) \<or> (144 \<le> i \<and> i < 152) \<longrightarrow> d' ! i = d ! i)"
  have "le64_at d' 144 = le64_at d 144"
    using h by (intro le64_at_cong) simp
  moreover have "le64_at d' 104 = le64_at d 104"
    using h by (intro le64_at_cong) simp
  ultimately show "checkRandomnessStatus c' a' = checkRandomnessStatus c a"
    using h
    by (simp add: checkRandomnessStatus_slots [OF assms]
        checkRandomnessStatus_slots [of c' a' d'])
qed

theorem checkRandomnessStatus_two_slots_witness:
  "checkRandomnessStatus oracle_client (PublicKey 7) = committed
   \<and> le64_at committed_record 144 = 0 \<and> le64_at committed_record 104 \<noteq> 0"
proof -
  have a: "accountData (connection oracle_client) (PublicKey 7) = Some committed_record"
    by (simp add: oracle_client_def)
  have l: "152 \<le> length committed_record"
    by (simp add: committed_record_def)
  have z: "le64_at committed_record 144 = 0"
    by (simp add: le64_at_def committed_record_def nth_append)
  have "\<And>i. i < 8 \<Longrightarrow> committed_record ! (104 + i) = (if i = 0 then 1 else 0)"
    by (auto simp add: committed_record_def nth_append nth_Cons split: nat.splits)
  then have n: "le64_at committed_record 104 = 1"
    by (simp add: le64_at_def sum.lessThan_Suc_shift eval_nat_numeral
        del: sum.lessThan_Suc)
  from checkRandomnessStatus_two_slots [OF a l] z n show ?thesis
    by simp
qed

section \<open>UTF-8\<close>

lemma unat_byte: "n < 256 \<Longrightarrow> unat (byte_of n) = n"
  by (simp add: byte_of_def unat_of_nat)

lemma decode_one_byte:
  "c < 0x80 \<Longrightarrow> decode_utf8 (map unat (utf8_bytes c) @ r) = c # decode_utf8 r"
  by (simp add: utf8_bytes_def unat_byte)

lemma decode_two_bytes:
  assumes "0x80 \<le> c" and "c < 0x800"
  shows "decode_utf8 (map unat (utf8_bytes c) @ r) = c # decode_utf8 r"
proof -
  let ?b0 = "0xC0 + c div 64" and ?b1 = "0x80 + c mod 64"
  have b: "?b0 < 256" "?b1 < 256" using assms by simp_all
  have r0: "\<not> ?b0 < 0x80" "0xC2 \<le> ?b0" "?b0 \<le> 0xDF" using assms by simp_all
  have r1: "continuation ?b1" by (simp add: continuation_def)
  have v: "(?b0 - 0xC0) * 64 + (?b1 - 0x80) = c" by simp
  have "map unat (utf8_bytes c) = [?b0, ?b1]"
    using assms b by (simp add: utf8_bytes_def unat_byte)
  then show ?thesis using r0 r1 v by simp
qed

lemma decode_three_bytes:
  assumes "0x800 \<le> c" and "c < 0x10000" and "\<not> (0xD800 \<le> c \<and> c < 0xE000)"
  shows "decode_utf8 (map unat (utf8_bytes c) @ r) = c # decode_utf8 r"
proof -
  define q where "q = c div 64"
  define a where "a = q div 64"
  define m1 where "m1 = q mod 64"
  define m2 where "m2 = c mod 64"
  have a4096: "c div 4096 = a"
    unfolding a_def q_def by (simp add: div_mult2_eq)
  have q: "32 \<le> q" "q < 1024" "\<not> (864 \<le> q \<and> q < 896)"
    using assms unfolding q_def by arith+
  have a: "a < 16" and m1: "m1 < 64" and qa: "q = a * 64 + m1"
    using q unfolding a_def m1_def by arith+
  have m2: "m2 < 64" and cq: "c = q * 64 + m2"
    unfolding m2_def q_def by simp_all
  have lo: "(if 0xE0 + a = 0xE0 then 0xA0 else 0x80) \<le> 0x80 + m1"
    using q qa by auto
  have hi: "0x80 + m1 \<le> (if 0xE0 + a = 0xED then 0x9F else 0xBF)"
    using q qa m1 by auto
  have v: "(0xE0 + a - 0xE0) * 4096 + (0x80 + m1 - 0x80) * 64 + (0x80 + m2 - 0x80) = c"
    using qa cq by simp
  have bytes: "utf8_bytes c = [byte_of (0xE0 + a), byte_of (0x80 + m1), byte_of (0x80 + m2)]"
    using assms unfolding utf8_bytes_def a4096 q_def [symmetric] m1_def [symmetric]
      m2_def [symmetric]
    by simp
  have "map unat (utf8_bytes c) = [0xE0 + a, 0x80 + m1, 0x80 + m2]"
    unfolding bytes using a m1 m2 by (simp add: unat_byte)
  moreover have "decode_utf8 ([0xE0 + a, 0x80 + m1, 0x80 + m2] @ r) = c # decode_utf8 r"
    using a m2 lo hi v by (simp add: continuation_def)
  ultimately show ?thesis by simp
qed

lemma decode_four_bytes:
  assumes "0x10000 \<le> c" and "c < 0x110000"
  shows "decode_utf8 (map unat (utf8_bytes c) @ r) = c # decode_utf8 r"
proof -
  define q where "q = c div 64"
  define p where "p = q div 64"
  define a where "a = p div 64"
  define m0 where "m0 = p mod 64"
  define m1 where "m1 = q mod 64"
  define m2 where "m2 = c mod 64"
  have p4096: "c div 4096 = p"
    unfolding p_def q_def by (simp add: div_mult2_eq)
  have a262144: "c div 262144 = a"
    unfolding a_def p_def q_def by (simp add: div_mult2_eq)
  have p: "16 \<le> p" "p < 272"
    using assms unfolding p4096 [symmetric] by arith+
  have a: "a < 5" and m0: "m0 < 64" and pa: "p = a * 64 + m0"
    using p unfolding a_def m0_def by arith+
  have m1: "m1 < 64" and qp: "q = p * 64 + m1"
    unfolding m1_def p_def by simp_all
  have m2: "m2 < 64" and cq: "c = q * 64 + m2"
    unfolding m2_def q_def by simp_all
  have lo: "(if 0xF0 + a = 0xF0 then 0x90 else 0x80) \<le> 0x80 + m0"
    using p pa by auto
  have hi: "0x80 + m0 \<le> (if 0xF0 + a = 0xF4 then 0x8F else 0xBF)"
    using p pa m0 by auto
  have v: "(0xF0 + a - 0xF0) * 262144 + (0x80 + m0 - 0x80) * 4096 + (0x80 + m1 - 0x80) * 64
      + (0x80 + m2 - 0x80) = c"
    using pa qp cq by simp
  have big: "\<not> c < 0x80" "\<not> c < 0x800" "\<not> c < 0x10000"
    using assms by simp_all
  have bytes: "utf8_bytes c =
      [byte_of (0xF0 + a), byte_of (0x80 + m0), byte_of (0x80 + m1), byte_of (0x80 + m2)]"
    using big unfolding utf8_bytes_def a262144 p4096 q_def [symmetric] m0_def [symmetric]
      m1_def [symmetric] m2_def [symmetric]
    by simp
  have "map unat (utf8_bytes c) = [0xF0 + a, 0x80 + m0, 0x80 + m1, 0x80 + m2]"
    unfolding bytes using a m0 m1 m2 by (simp add: unat_byte)
  moreover have "decode_utf8 ([0xF0 + a, 0x80 + m0, 0x80 + m1, 0x80 + m2] @ r)
      = c # decode_utf8 r"
    using a m1 m2 lo hi v by (simp add: continuation_def)
  ultimately show ?thesis by simp
qed

lemma decode_scalar:
  assumes "scalar c"
  shows "decode_utf8 (map unat (utf8_bytes c) @ r) = c # decode_utf8 r"
proof -
  consider "c < 0x80" | "0x80 \<le> c" "c < 0x800"
    | "0x800 \<le> c" "c < 0x10000" "\<not> (0xD800 \<le> c \<and> c < 0xE000)"
    | "0x10000 \<le> c" "c < 0x110000"
    using assms unfolding scalar_def by linarith
  then show ?thesis
  proof cases
    case 1
    then show ?thesis by (rule decode_one_byte)
  next
    case 2
    then show ?thesis by (rule decode_two_bytes)
  next
    case 3
    then show ?thesis by (rule decode_three_bytes)
  next
    case 4
    then show ?thesis by (rule decode_four_bytes)
  qed
qed


lemma decode_scalars:
  "list_all scalar cs \<Longrightarrow> decode_utf8 (map unat (concat (map utf8_bytes cs))) = cs"
proof (induction cs)
  case Nil
  then show ?case by simp
next
  case (Cons c cs)
  then have "scalar c" and "list_all scalar cs" by simp_all
  with Cons.IH decode_scalar [of c "map unat (concat (map utf8_bytes cs))"]
  show ?case by simp
qed

lemma unit_of_unat: "unit_of (unat u) = u"
  by (simp add: unit_of_def)

lemma pair_units:
  assumes "high_surrogate u" and "low_surrogate v"
  shows "scalar (0x10000 + (unat u - 0xD800) * 1024 + (unat v - 0xDC00))
     \<and> utf16_units (0x10000 + (unat u - 0xD800) * 1024 + (unat v - 0xDC00)) = [u, v]"
proof -
  define h where "h = unat u - 0xD800"
  define l where "l = unat v - 0xDC00"
  define c where "c = 0x10000 + h * 1024 + l"
  have hu: "0xD800 + h = unat u" and h: "h < 1024"
    using assms(1) unfolding high_surrogate_def h_def by arith+
  have lv: "0xDC00 + l = unat v" and l: "l < 1024"
    using assms(2) unfolding low_surrogate_def l_def by arith+
  have big: "\<not> c < 0x10000" and sc: "scalar c"
    using h l unfolding c_def scalar_def by arith+
  have "c - 0x10000 = h * 1024 + l"
    unfolding c_def by simp
  then have d: "(c - 0x10000) div 1024 = h" and m: "(c - 0x10000) mod 1024 = l"
    using l by simp_all
  have "utf16_units c = [unit_of (0xD800 + h), unit_of (0xDC00 + l)]"
    unfolding utf16_units_def d m using big by simp
  then have "utf16_units c = [u, v]"
    unfolding hu lv by (simp only: unit_of_unat)
  with sc show ?thesis
    unfolding c_def h_def l_def by simp
qed

lemma single_unit:
  assumes "\<not> high_surrogate u" and "\<not> low_surrogate u"
  shows "scalar (unit_code_point u) \<and> utf16_units (unit_code_point u) = [u]"
proof -
  have small: "unat u < 0x10000"
    using unsigned_less [of u, where ?'a = nat] by simp
  have c: "unit_code_point u = unat u"
    using assms by (simp add: unit_code_point_def)
  have "scalar (unat u)"
    using assms small unfolding scalar_def high_surrogate_def low_surrogate_def by arith
  moreover have "utf16_units (unat u) = [u]"
    using small by (simp add: utf16_units_def unit_of_unat)
  ultimately show ?thesis
    unfolding c by simp
qed

lemma well_formed_units:
  "well_formed s \<Longrightarrow>
     list_all scalar (code_points s) \<and> concat (map utf16_units (code_points s)) = s"
proof (induction s rule: code_points.induct)
  case 1
  then show ?case by simp
next
  case (2 u)
  then show ?case using single_unit [of u] by simp
next
  case (3 u v us)
  show ?case
  proof (cases "high_surrogate u \<and> low_surrogate v")
    case True
    with 3 pair_units [of u v] show ?thesis by simp
  next
    case False
    with 3 single_unit [of u] show ?thesis by simp
  qed
qed

lemma toString_utf8_utf8: "well_formed s \<Longrightarrow> toString_utf8 (utf8 s) = s"
  using well_formed_units [of s] by (simp add: toString_utf8_def utf8_def decode_scalars)

lemma ascii_code_points:
  "list_all (\<lambda>u. unat u < 0x80) s \<Longrightarrow> code_points s = map unat s"
proof (induction s rule: code_points.induct)
  case 1
  then show ?case by simp
next
  case (2 u)
  then show ?case
    by (simp add: unit_code_point_def high_surrogate_def low_surrogate_def)
next
  case (3 u v us)
  then show ?case
    by (simp add: unit_code_point_def high_surrogate_def low_surrogate_def)
qed

lemma utf8_ascii:
  assumes "list_all (\<lambda>u. unat u < 0x80) s"
  shows "utf8 s = map (\<lambda>u. byte_of (unat u)) s"
proof -
  have "concat (map utf8_bytes (map unat s)) = map (\<lambda>u. byte_of (unat u)) s"
    using assms by (induction s) (simp_all add: utf8_bytes_def)
  then show ?thesis using assms by (simp add: utf8_def ascii_code_points)
qed

lemma length_utf8_ascii: "list_all (\<lambda>u. unat u < 0x80) s \<Longrightarrow> length (utf8 s) = length s"
  by (simp add: utf8_ascii)


lemma js_units: "list_all (\<lambda>c. of_char c < (128::nat)) s \<Longrightarrow> list_all (\<lambda>u. unat u < 0x80) (js s)"
  by (induction s) (simp_all add: js_def unat_of_nat)

lemma utf8_js:
  "list_all (\<lambda>c. of_char c < (128::nat)) s \<Longrightarrow> utf8 (js s) = map (\<lambda>c. byte_of (of_char c)) s"
proof -
  assume a: "list_all (\<lambda>c. of_char c < (128::nat)) s"
  have "map (\<lambda>u. byte_of (unat u)) (js s) = map (\<lambda>c. byte_of (of_char c)) s"
    using a by (induction s) (simp_all add: js_def unat_of_nat)
  with a show ?thesis
    by (simp add: utf8_ascii js_units)
qed

lemma length_utf8_js:
  "list_all (\<lambda>c. of_char c < (128::nat)) s \<Longrightarrow> length (utf8 (js s)) = length s"
  by (simp add: utf8_js)


section \<open>The derived status of a Pot\<close>

text \<open>
  Claim C2, as it is stated, at a Pot whose winning slot is \<open>2 ^ 53\<close>: the table says
  Active at time 0, \<open>getPotStatus\<close> raises.
\<close>

theorem getPotStatus_raises_counterexample:
  "getPotStatus 0 unsafe_pot \<noteq> Inr (derived_status 0 unsafe_pot)"
  by (simp add: getPotStatus_def toNumber_def unsafe_pot_def derived_status_def)

text \<open>
  Claim C2, amended. For every Pot record whose end timestamp is below \<open>2 ^ 53\<close> in
  magnitude and whose winning slot is not negative and below \<open>2 ^ 53\<close>, and every time
  now, \<open>getPotStatus\<close> returns the status of the table: Active if now is before the end;
  otherwise Settled if the winning slot is not zero; otherwise Drawing if the randomness
  account is not the default key; otherwise Closed. When the end timestamp or the winning
  slot reaches \<open>2 ^ 53\<close> in magnitude, \<open>getPotStatus\<close> raises and returns no status.
\<close>

theorem getPotStatus_table_in_range:
  "(\<bar>endTimestamp pot\<bar> < 2 ^ 53 \<and> 0 \<le> winningSlot pot \<and> winningSlot pot < 2 ^ 53
      \<longrightarrow> getPotStatus now pot = Inr (derived_status now pot))
   \<and> (2 ^ 53 \<le> \<bar>endTimestamp pot\<bar> \<or> 2 ^ 53 \<le> \<bar>winningSlot pot\<bar>
      \<longrightarrow> (\<exists>e. getPotStatus now pot = Inl e))"
  by (auto simp add: getPotStatus_def toNumber_def derived_status_def Let_def)

theorem getPotStatus_table_in_range_witness:
  "getPotStatus 100 settled_pot = Inr Settled \<and> getPotStatus 99 settled_pot = Inr Active"
  using getPotStatus_table_in_range [of settled_pot 100]
    getPotStatus_table_in_range [of settled_pot 99]
  by (simp add: settled_pot_def derived_status_def)

section \<open>Reading a Pot account\<close>

lemma BN_be_snoc: "BN_be (bs @ [b]) = 256 * BN_be bs + unat b"
  by (simp add: BN_be_def)

lemma BN_be_bound: "BN_be bs < 256 ^ length bs"
proof (induction bs rule: rev_induct)
  case Nil
  then show ?case by (simp add: BN_be_def)
next
  case (snoc b bs)
  have "unat b < 256"
    using unsigned_less [of b, where ?'a = nat] by simp
  with snoc show ?case by (simp add: BN_be_snoc)
qed

lemma new_PublicKey_slice32:
  assumes "b \<le> a + 32"
  shows "new_PublicKey (slice d a b) = Inr (PublicKey (BN_be (slice d a b)))"
proof -
  have "BN_be (slice d a b) < 256 ^ length (slice d a b)"
    by (rule BN_be_bound)
  also have "\<dots> \<le> (256::nat) ^ 32"
    using assms by (intro power_increasing) (simp_all add: slice_def)
  finally show ?thesis by (simp add: new_PublicKey_def)
qed

lemma parsePotAccount_total:
  "parsePotAccount d =
     Some \<lparr>potManager = PublicKey (BN_be (slice d 8 40)),
           totalParticipants = BN_le (slice d 40 48),
           startTimestamp = BN_le (slice d 48 56),
           endTimestamp = BN_le (slice d 56 64),
           winningSlot = BN_le (slice d 64 72),
           randomnessAccount = PublicKey (BN_be (slice d 72 104))\<rparr>"
  by (simp add: parsePotAccount_def new_PublicKey_slice32)

lemma slice_skip: "length p = n \<Longrightarrow> n \<le> a \<Longrightarrow> slice (p @ r) a b = slice r (a - n) (b - n)"
  by (simp add: slice_def)

lemma getAllPots_filtered:
  assumes "getAllPots c = Inr ps" and "(pot, k) \<in> set ps"
  shows "\<exists>d. (k, d) \<in> set (programAccounts (connection c))
           \<and> Some (take 8 d) = map_of DISCRIMINATORS ''POT''
           \<and> parsePotAccount d = Some pot"
proof -
  let ?disc = "[238, 118, 60, 175, 178, 191, 59, 58] :: Buffer"
  have ps: "ps = List.map_filter
                 (\<lambda>(pubkey, d). map_option (\<lambda>pot. (pot, pubkey)) (parsePotAccount d))
                 (getProgramAccounts (connection c) [(0, ?disc)])"
    using assms(1) by (simp add: getAllPots_def Buffer_from_def DISCRIMINATORS_def)
  from assms(2) obtain k' d where
    m: "(k', d) \<in> set (getProgramAccounts (connection c) [(0, ?disc)])"
    and p: "map_option (\<lambda>pot. (pot, k')) (parsePotAccount d) = Some (pot, k)"
    unfolding ps by (auto simp add: List.map_filter_def split: prod.splits)
  from p have "k' = k" and "parsePotAccount d = Some pot"
    by auto
  moreover from m have "(k', d) \<in> set (programAccounts (connection c))"
    and "take 8 d = ?disc"
    by (auto simp add: getProgramAccounts_def memcmp_def slice_def eval_nat_numeral)
  ultimately show ?thesis
    by (auto simp add: DISCRIMINATORS_def)
qed

text \<open>
  Claim C7, as it is stated, at the account of a Ticket: its first eight bytes are not the
  Pot discriminator, and both \<open>parsePotAccount\<close> and \<open>getPot\<close> return a decoded Pot.
\<close>

theorem parsePotAccount_accepts_ticket_counterexample:
  "map_of DISCRIMINATORS ''POT'' = Some [238, 118, 60, 175, 178, 191, 59, 58]
   \<and> take 8 ticket_record \<noteq> [238, 118, 60, 175, 178, 191, 59, 58]
   \<and> parsePotAccount ticket_record \<noteq> None
   \<and> getPot ticket_client (PublicKey 5) \<noteq> None"
  by (simp add: parsePotAccount_total getPot_def ticket_client_def ticket_record_def
      DISCRIMINATORS_def)

text \<open>
  Claim C7, amended. \<open>parsePotAccount\<close> skips the eight discriminator bytes unread: it
  returns a decoded record for every buffer, the same record for two buffers that differ
  only in their first eight bytes, and \<open>getPot\<close> returns null only where no account
  exists. The discriminator is compared by the filter of \<open>getAllPots\<close> alone: every Pot it
  returns is decoded from an account of the program whose first eight bytes are the Pot
  discriminator.
\<close>

theorem parsePotAccount_ignores_discriminator:
  "parsePotAccount d \<noteq> None
   \<and> (length p = 8 \<and> length p' = 8 \<longrightarrow> parsePotAccount (p @ r) = parsePotAccount (p' @ r))
   \<and> (getPot c a = None \<longleftrightarrow> accountData (connection c) a = None)
   \<and> (\<forall>ps pot k. getAllPots c = Inr ps \<and> (pot, k) \<in> set ps \<longrightarrow>
        (\<exists>d'. (k, d') \<in> set (programAccounts (connection c))
           \<and> Some (take 8 d') = map_of DISCRIMINATORS ''POT''
           \<and> parsePotAccount d' = Some pot))"
proof (intro conjI impI allI)
  show "parsePotAccount d \<noteq> None"
    by (simp add: parsePotAccount_total)
  show "parsePotAccount (p @ r) = parsePotAccount (p' @ r)"
    if "length p = 8 \<and> length p' = 8"
    using that by (simp add: parsePotAccount_total slice_skip)
  show "getPot c a = None \<longleftrightarrow> accountData (connection c) a = None"
    by (simp add: getPot_def parsePotAccount_total split: option.splits)
next
  fix ps pot k
  assume "getAllPots c = Inr ps \<and> (pot, k) \<in> set ps"
  then show "\<exists>d'. (k, d') \<in> set (programAccounts (connection c))
           \<and> Some (take 8 d') = map_of DISCRIMINATORS ''POT''
           \<and> parsePotAccount d' = Some pot"
    using getAllPots_filtered by blast
qed

theorem parsePotAccount_ignores_discriminator_witness:
  "parsePotAccount (replicate 8 0 @ drop 8 ticket_record) = parsePotAccount ticket_record
   \<and> getAllPots ticket_client = Inr []"
proof -
  have "ticket_record = take 8 ticket_record @ drop 8 ticket_record"
    by simp
  then have "parsePotAccount ticket_record
      = parsePotAccount (replicate 8 0 @ drop 8 ticket_record)"
    using parsePotAccount_ignores_discriminator
      [of ticket_record "take 8 ticket_record" "replicate 8 0" "drop 8 ticket_record"
        ticket_client "PublicKey 5"]
    by (simp add: ticket_record_def)
  moreover have "getAllPots ticket_client = Inr []"
    by (simp add: getAllPots_def Buffer_from_def DISCRIMINATORS_def getProgramAccounts_def
        ticket_client_def memcmp_def slice_def ticket_record_def List.map_filter_def)
  ultimately show ?thesis by simp
qed

section \<open>The reader of all managers\<close>

text \<open>
  Claim C10. Whatever the connection holds, \<open>getAllPotManagers\<close> returns no result: the
  table \<open>DISCRIMINATORS\<close> has no entry \<open>POT_MANAGER\<close>, and building the filter from the
  undefined value raises a TypeError before any account is fetched.
\<close>

theorem getAllPotManagers_raises:
  "getAllPotManagers c =
     Inl (TypeError
       (''The first argument must be of type string or an instance of Buffer, ''
        @ ''ArrayBuffer, or Array or an Array-like Object. Received undefined''))
   \<and> map_of DISCRIMINATORS ''POT_MANAGER'' = None"
  by (simp add: getAllPotManagers_def Buffer_from_def DISCRIMINATORS_def)

theorem getAllPotManagers_raises_witness:
  "\<exists>e. getAllPotManagers ticket_client = Inl e"
  using getAllPotManagers_raises [of ticket_client] by simp

section \<open>The winning ticket\<close>

lemma length_le_bytes: "length (le_bytes k n) = k"
  by (induction k arbitrary: n) simp_all

lemma length_be_bytes: "length (be_bytes k n) = k"
  by (induction k arbitrary: n) simp_all

text \<open>
  Claim C9. \<open>getWinningTicket\<close> returns a ticket only for a Pot whose stored winning slot
  is not zero; for a Pot whose winning slot is zero it returns null, at every time (it
  reads no clock); and \<open>getPotStatus\<close> never answers Settled for such a Pot.
\<close>

theorem getWinningTicket_zero_slot:
  "(\<forall>t. getWinningTicket L c a = Inr (Some t) \<longrightarrow>
       (\<exists>p. getPot c a = Some p \<and> winningSlot p \<noteq> 0))
   \<and> (\<forall>p. getPot c a = Some p \<and> winningSlot p = 0 \<longrightarrow> getWinningTicket L c a = Inr None)
   \<and> (\<forall>now p. winningSlot p = 0 \<longrightarrow> getPotStatus now p \<noteq> Inr Settled)"
  by (auto simp add: getWinningTicket_def getPotStatus_def toNumber_def Let_def
      split: option.splits sum.splits if_splits prod.splits)

lemma BN_le_zeros: "BN_le (replicate n 0) = 0"
  by (induction n) simp_all

lemma BN_be_zeros: "BN_be (replicate n 0) = 0"
proof (induction n)
  case 0
  then show ?case by (simp add: BN_be_def)
next
  case (Suc n)
  have "replicate (Suc n) (0::byte) = replicate n 0 @ [0]"
    by (simp add: replicate_append_same)
  then show ?case using Suc by (simp only: BN_be_snoc) simp
qed

lemma zero_slot_parse:
  "\<exists>p. getPot zero_slot_client (PublicKey 3) = Some p \<and> winningSlot p = 0
      \<and> totalParticipants p = 1 \<and> endTimestamp p = 100"
  by (simp add: getPot_def zero_slot_client_def parsePotAccount_total zero_slot_pot_def
      slice_def BN_le_zeros)

lemma deriveTicketPDA_stub:
  "deriveTicketPDA stub_libs (PublicKey 3) 0 = Inr (PublicKey 11, 255)"
  by (simp add: deriveTicketPDA_def toArrayLike_le_def findProgramAddressSync_def
      stub_libs_def SEEDS_TICKET_def length_utf8_js toBuffer_def length_be_bytes
      length_le_bytes)

theorem getWinningTicket_zero_slot_witness:
  "getWinningTicket stub_libs zero_slot_client (PublicKey 3) = Inr None
   \<and> deriveTicketPDA stub_libs (PublicKey 3) 0 = Inr (PublicKey 11, 255)
   \<and> getTicket zero_slot_client (PublicKey 11)
       = Some \<lparr>participant = PublicKey 0, index = 0\<rparr>"
proof -
  obtain p where p: "getPot zero_slot_client (PublicKey 3) = Some p" "winningSlot p = 0"
    using zero_slot_parse by blast
  have "getWinningTicket stub_libs zero_slot_client (PublicKey 3) = Inr None"
    using getWinningTicket_zero_slot [of stub_libs zero_slot_client "PublicKey 3"] p
    by blast
  moreover have "getTicket zero_slot_client (PublicKey 11)
      = Some \<lparr>participant = PublicKey 0, index = 0\<rparr>"
    by (simp add: getTicket_def zero_slot_client_def parseTicketAccount_def
        new_PublicKey_def slice_def BN_be_zeros BN_le_zeros)
  ultimately show ?thesis
    using deriveTicketPDA_stub by simp
qed

section \<open>The codec of the manager's name\<close>

lemma BN_le_le_bytes: "BN_le (le_bytes k n) = int (n mod 256 ^ k)"
proof (induction k arbitrary: n)
  case 0
  then show ?case by simp
next
  case (Suc k)
  have "uint (of_nat (n mod 256) :: byte) = int (n mod 256)"
    by (simp add: unsigned_of_nat take_bit_eq_mod zmod_int)
  moreover have "n mod (256 * 256 ^ k) = 256 * (n div 256 mod 256 ^ k) + n mod 256"
    by (rule mod_mult2_eq)
  ultimately show ?case
    using Suc [of "n div 256"] by simp
qed

lemma slice_mid: "length p = a \<Longrightarrow> b = a + length xs \<Longrightarrow> slice (p @ xs @ r) a b = xs"
  by (simp add: slice_def)

lemma encodeString_bytes:
  "length (utf8 nm) < 2 ^ 32 \<Longrightarrow>
     encodeString nm = Inr (le_bytes 4 (length (utf8 nm)) @ utf8 nm)"
  by (simp add: encodeString_def writeUInt32LE_def Let_def)

lemma parse_name_field:
  assumes "length bs < 2 ^ 32" and "length pre = 137"
  shows "\<exists>m. parsePotManagerAccount (pre @ (le_bytes 4 (length bs) @ bs) @ rest) = Some m
           \<and> name m = toString_utf8 bs"
proof -
  let ?d = "pre @ (le_bytes 4 (length bs) @ bs) @ rest"
  have "slice ?d 137 (137 + 4) = le_bytes 4 (length bs)"
    using assms(2)
      slice_mid [of pre 137 "137 + 4" "le_bytes 4 (length bs)" "bs @ rest"]
    by (simp add: length_le_bytes)
  then have "BN_le (slice ?d 137 (137 + 4)) = int (length bs)"
    using assms(1) by (simp add: BN_le_le_bytes)
  then have len: "readUInt32LE ?d 137 = Inr (length bs)"
    using assms(2) by (simp add: readUInt32LE_def length_le_bytes)
  have "slice ((pre @ le_bytes 4 (length bs)) @ bs @ rest) 141 (141 + length bs) = bs"
    using assms(2) by (intro slice_mid) (simp_all add: length_le_bytes)
  then have nm: "toString_utf8 (slice ?d 141 (141 + length bs)) = toString_utf8 bs"
    by simp
  show ?thesis
    using len nm by (simp add: parsePotManagerAccount_def new_PublicKey_slice32)
qed

lemma utf8_lone_surrogate: "utf8 lone_surrogate = [0xEF, 0xBF, 0xBD]"
  by (simp add: lone_surrogate_def utf8_def unit_code_point_def high_surrogate_def
      utf8_bytes_def byte_of_def)

lemma toString_utf8_replacement: "toString_utf8 [0xEF, 0xBF, 0xBD] = [0xFFFD]"
  by (simp add: toString_utf8_def continuation_def utf16_units_def unit_of_def)

lemma toString_utf8_ill_formed: "toString_utf8 [0xFF, 0x41] = [0xFFFD, 0x41]"
  by (simp add: toString_utf8_def continuation_def utf16_units_def unit_of_def)

text \<open>
  Claim C8, as it is stated, at the name that is one lone high surrogate (the JavaScript
  string \<open>"\ud800"\<close>): \<open>Buffer.from\<close> writes it as the three bytes of \<open>U+FFFD\<close>, fewer
  than 32; \<open>encodeString\<close> returns the length 3 and these bytes; and
  \<open>parsePotManagerAccount\<close> reads back the name \<open>U+FFFD\<close>, which is not the original name.
\<close>

theorem encodeString_lone_surrogate_counterexample:
  "length (utf8 lone_surrogate) \<le> 32
   \<and> encodeString lone_surrogate = Inr [3, 0, 0, 0, 0xEF, 0xBF, 0xBD]
   \<and> (\<exists>m. parsePotManagerAccount (replicate 137 0 @ [3, 0, 0, 0, 0xEF, 0xBF, 0xBD]) = Some m
          \<and> name m = [0xFFFD] \<and> name m \<noteq> lone_surrogate)"
proof -
  have l: "le_bytes 4 (length [0xEF, 0xBF, 0xBD :: byte]) = [3, 0, 0, 0]"
    by code_simp
  have e: "encodeString lone_surrogate = Inr [3, 0, 0, 0, 0xEF, 0xBF, 0xBD]"
    using encodeString_bytes [of lone_surrogate] unfolding utf8_lone_surrogate l by simp
  have "\<exists>m. parsePotManagerAccount (replicate 137 0 @ [3, 0, 0, 0, 0xEF, 0xBF, 0xBD]) = Some m
          \<and> name m = [0xFFFD]"
    using parse_name_field [of "[0xEF, 0xBF, 0xBD]" "replicate 137 0" "[]"]
    unfolding l by (simp add: toString_utf8_replacement)
  moreover have "[0xFFFD] \<noteq> lone_surrogate"
    by (simp add: lone_surrogate_def)
  ultimately show ?thesis
    using e by (auto simp add: utf8_lone_surrogate)
qed

text \<open>
  Claim C8, amended. For every well-formed name (every surrogate code unit is half of a
  pair) whose UTF-8 encoding has at most 32 bytes, \<open>encodeString\<close> returns the four
  little-endian bytes of the number of these bytes followed by the bytes, and
  \<open>parsePotManagerAccount\<close> reads the name back from a record that holds this encoding in
  its name field (after the 137 bytes of the fields before it), whatever follows the field.
\<close>

theorem encodeString_name_roundtrip:
  assumes "well_formed nm" and "length (utf8 nm) \<le> 32" and "length pre = 137"
  shows "\<exists>enc. encodeString nm = Inr enc
           \<and> enc = le_bytes 4 (length (utf8 nm)) @ utf8 nm
           \<and> (\<exists>m. parsePotManagerAccount (pre @ enc @ rest) = Some m \<and> name m = nm)"
proof -
  have small: "length (utf8 nm) < 2 ^ 32"
    using assms(2) by simp
  have e: "encodeString nm = Inr (le_bytes 4 (length (utf8 nm)) @ utf8 nm)"
    using small by (rule encodeString_bytes)
  from parse_name_field [OF small assms(3), of rest]
  have "\<exists>m. parsePotManagerAccount (pre @ (le_bytes 4 (length (utf8 nm)) @ utf8 nm) @ rest)
            = Some m \<and> name m = nm"
    using assms(1) by (simp add: toString_utf8_utf8)
  with e show ?thesis by simp
qed

lemma utf8_euro: "utf8 [0x20AC, 0x35] = [0xE2, 0x82, 0xAC, 0x35]"
  by (simp add: utf8_def unit_code_point_def high_surrogate_def low_surrogate_def
      utf8_bytes_def byte_of_def)

theorem encodeString_name_roundtrip_witness:
  "encodeString [0x20AC, 0x35] = Inr [4, 0, 0, 0, 0xE2, 0x82, 0xAC, 0x35]
   \<and> (\<exists>m. parsePotManagerAccount (replicate 137 0 @ [4, 0, 0, 0, 0xE2, 0x82, 0xAC, 0x35])
            = Some m
          \<and> name m = [0x20AC, 0x35])"
proof -
  have a: "well_formed [0x20AC, 0x35]"
    by (simp add: high_surrogate_def low_surrogate_def)
  have b: "length (utf8 [0x20AC, 0x35]) \<le> 32"
    by (simp add: utf8_euro)
  have c: "length (replicate 137 (0::byte)) = 137"
    by simp
  have d: "le_bytes 4 (length [0xE2, 0x82, 0xAC, 0x35 :: byte]) = [4, 0, 0, 0]"
    by code_simp
  from encodeString_name_roundtrip [OF a b c, of "[]"] show ?thesis
    unfolding utf8_euro d by simp
qed


section \<open>The reachable ledgers\<close>

lemma inv_empty: "ledger_inv empty_ledger"
  by (simp add: ledger_inv_def empty_ledger_def)

lemma create_pot_Inr:
  "create_pot m b e s = Inr s' \<longleftrightarrow>
     pots s (m, e) = None \<and>
     s' = s\<lparr>pots := (pots s)((m, e) \<mapsto>
             \<lparr>pot_manager = m, pot_participants = 0, pot_start = b,
              pot_end = e, pot_winning = 0, pot_request = None\<rparr>)\<rparr>"
  by (auto simp add: create_pot_def)

lemma exec_Init_Inr:
  "exec now (Init a t k e d nm) s = Inr s' \<longleftrightarrow>
     now < e \<and> length nm \<le> 32 \<and> managers s (a, nm) = None
     \<and> pots s ((a, nm), e) = None \<and> pots s ((a, nm), e + d) = None \<and> 0 < d
     \<and> s' = s\<lparr>managers := (managers s)((a, nm) \<mapsto>
                     \<lparr>mgr_authority = a, mgr_treasury = t, mgr_token = k,
                      mgr_duration = d, mgr_timestamps = (e, e + d),
                      mgr_name = nm\<rparr>),
               pots := (pots s)(((a, nm), e) \<mapsto>
                  \<lparr>pot_manager = (a, nm), pot_participants = 0, pot_start = now,
                   pot_end = e, pot_winning = 0, pot_request = None\<rparr>,
                 ((a, nm), e + d) \<mapsto>
                  \<lparr>pot_manager = (a, nm), pot_participants = 0, pot_start = e,
                   pot_end = e + d, pot_winning = 0, pot_request = None\<rparr>)\<rparr>"
  by (auto simp add: create_pot_def split: sum.splits)

lemma exec_Advance_Inr:
  "exec now (AdvanceRound m) s = Inr s' \<longleftrightarrow>
     (\<exists>mg. managers s m = Some mg \<and> fst (mgr_timestamps mg) \<le> now
        \<and> pots s (m, snd (mgr_timestamps mg) + mgr_duration mg) = None
        \<and> s' = s\<lparr>pots := (pots s)((m, snd (mgr_timestamps mg) + mgr_duration mg) \<mapsto>
                  \<lparr>pot_manager = m, pot_participants = 0,
                   pot_start = snd (mgr_timestamps mg),
                   pot_end = snd (mgr_timestamps mg) + mgr_duration mg, pot_winning = 0,
                   pot_request = None\<rparr>),
               managers := (managers s)(m \<mapsto>
                  mg\<lparr>mgr_timestamps := (snd (mgr_timestamps mg),
                       snd (mgr_timestamps mg) + mgr_duration mg)\<rparr>)\<rparr>)"
  by (auto simp add: create_pot_def split: sum.splits option.splits prod.splits)

lemma inv_pots: "ledger_inv s \<Longrightarrow> pots s (m, e) = Some p \<Longrightarrow>
   pot_end p = e \<and> (\<exists>mg. managers s m = Some mg \<and>
           (e \<le> fst (mgr_timestamps mg) \<or> e = snd (mgr_timestamps mg)))"
  unfolding ledger_inv_def by blast

lemma inv_managers: "ledger_inv s \<Longrightarrow> managers s m = Some mg \<Longrightarrow>
        0 < mgr_duration mg \<and>
        snd (mgr_timestamps mg) = fst (mgr_timestamps mg) + mgr_duration mg \<and>
        pots s (m, fst (mgr_timestamps mg)) \<noteq> None \<and>
        pots s (m, snd (mgr_timestamps mg)) \<noteq> None"
  unfolding ledger_inv_def by blast

lemma inv_tickets: "ledger_inv s \<Longrightarrow> tickets s (pid, i) = Some t \<Longrightarrow>
   \<exists>p. pots s pid = Some p \<and> i < pot_participants p"
  unfolding ledger_inv_def by blast

lemma ledger_invI:
  assumes "\<And>m e p. pots s (m, e) = Some p \<Longrightarrow>
        pot_end p = e \<and>
        (\<exists>mg. managers s m = Some mg \<and>
           (e \<le> fst (mgr_timestamps mg) \<or> e = snd (mgr_timestamps mg)))"
    and "\<And>m mg. managers s m = Some mg \<Longrightarrow>
        0 < mgr_duration mg \<and>
        snd (mgr_timestamps mg) = fst (mgr_timestamps mg) + mgr_duration mg \<and>
        pots s (m, fst (mgr_timestamps mg)) \<noteq> None \<and>
        pots s (m, snd (mgr_timestamps mg)) \<noteq> None"
    and "\<And>pid i t. tickets s (pid, i) = Some t \<Longrightarrow>
        (\<exists>p. pots s pid = Some p \<and> i < pot_participants p)"
  shows "ledger_inv s"
  unfolding ledger_inv_def using assms by blast

lemma inv_no_manager_no_pot: "ledger_inv s \<Longrightarrow> managers s m = None \<Longrightarrow> pots s (m, e) = None"
  using inv_pots [of s m e] by (cases "pots s (m, e)") auto

lemma inv_Init:
  assumes i: "ledger_inv s" and x: "exec now (Init a t k e d nm) s = Inr s'"
  shows "ledger_inv s'"
proof -
  have n: "managers s (a, nm) = None" and d: "0 < d"
    and s': "s' = s\<lparr>managers := (managers s)((a, nm) \<mapsto>
                     \<lparr>mgr_authority = a, mgr_treasury = t, mgr_token = k,
                      mgr_duration = d, mgr_timestamps = (e, e + d),
                      mgr_name = nm\<rparr>),
               pots := (pots s)(((a, nm), e) \<mapsto>
                  \<lparr>pot_manager = (a, nm), pot_participants = 0, pot_start = now,
                   pot_end = e, pot_winning = 0, pot_request = None\<rparr>,
                 ((a, nm), e + d) \<mapsto>
                  \<lparr>pot_manager = (a, nm), pot_participants = 0, pot_start = e,
                   pot_end = e + d, pot_winning = 0, pot_request = None\<rparr>)\<rparr>"
    using x [unfolded exec_Init_Inr] by simp_all
  have none: "pots s ((a, nm), x) = None" for x
    using i n by (rule inv_no_manager_no_pot)
  show ?thesis
  proof (rule ledger_invI)
    fix m x p assume "pots s' (m, x) = Some p"
    then show "pot_end p = x \<and> (\<exists>mg. managers s' m = Some mg \<and>
           (x \<le> fst (mgr_timestamps mg) \<or> x = snd (mgr_timestamps mg)))"
      using inv_pots [OF i, of m x p] none
      by (auto simp add: s' split: if_splits)
  next
    fix m mg assume "managers s' m = Some mg"
    then show "0 < mgr_duration mg \<and>
        snd (mgr_timestamps mg) = fst (mgr_timestamps mg) + mgr_duration mg \<and>
        pots s' (m, fst (mgr_timestamps mg)) \<noteq> None \<and>
        pots s' (m, snd (mgr_timestamps mg)) \<noteq> None"
      using inv_managers [OF i, of m mg] d
      by (auto simp add: s' split: if_splits)
  next
    fix pid i' tk assume "tickets s' (pid, i') = Some tk"
    then show "\<exists>p. pots s' pid = Some p \<and> i' < pot_participants p"
      using inv_tickets [OF i, of pid i' tk] none
      by (auto simp add: s' split: if_splits)
  qed
qed

lemma inv_Advance:
  assumes i: "ledger_inv s" and x: "exec now (AdvanceRound m) s = Inr s'"
  shows "ledger_inv s'"
proof -
  from x obtain mg where mg: "managers s m = Some mg"
    and fresh: "pots s (m, snd (mgr_timestamps mg) + mgr_duration mg) = None"
    and s': "s' = s\<lparr>pots := (pots s)((m, snd (mgr_timestamps mg) + mgr_duration mg) \<mapsto>
                  \<lparr>pot_manager = m, pot_participants = 0,
                   pot_start = snd (mgr_timestamps mg),
                   pot_end = snd (mgr_timestamps mg) + mgr_duration mg, pot_winning = 0,
                   pot_request = None\<rparr>),
               managers := (managers s)(m \<mapsto>
                  mg\<lparr>mgr_timestamps := (snd (mgr_timestamps mg),
                       snd (mgr_timestamps mg) + mgr_duration mg)\<rparr>)\<rparr>"
    unfolding exec_Advance_Inr by blast
  note im = inv_managers [OF i mg]
  show ?thesis
  proof (rule ledger_invI)
    fix m' x p assume "pots s' (m', x) = Some p"
    then show "pot_end p = x \<and> (\<exists>mg. managers s' m' = Some mg \<and>
           (x \<le> fst (mgr_timestamps mg) \<or> x = snd (mgr_timestamps mg)))"
      using inv_pots [OF i, of m' x p] im mg
      by (auto simp add: s' split: if_splits)
  next
    fix m' mg' assume "managers s' m' = Some mg'"
    then show "0 < mgr_duration mg' \<and>
        snd (mgr_timestamps mg') = fst (mgr_timestamps mg') + mgr_duration mg' \<and>
        pots s' (m', fst (mgr_timestamps mg')) \<noteq> None \<and>
        pots s' (m', snd (mgr_timestamps mg')) \<noteq> None"
      using inv_managers [OF i, of m' mg'] im
      by (auto simp add: s' split: if_splits)
  next
    fix pid i' tk assume "tickets s' (pid, i') = Some tk"
    then show "\<exists>p. pots s' pid = Some p \<and> i' < pot_participants p"
      using inv_tickets [OF i, of pid i' tk] fresh
      by (auto simp add: s' split: if_splits)
  qed
qed

lemma inv_Enter:
  assumes i: "ledger_inv s" and x: "exec now (Enter pid who) s = Inr s'"
  shows "ledger_inv s'"
proof -
  from x obtain p where p: "pots s pid = Some p"
    and s': "s' = s\<lparr>tickets := (tickets s)((pid, pot_participants p) \<mapsto>
                      \<lparr>ticket_owner = who, ticket_index = pot_participants p\<rparr>),
                   pots := (pots s)(pid \<mapsto>
                      p\<lparr>pot_participants := pot_participants p + 1\<rparr>)\<rparr>"
    by (auto split: option.splits if_splits)
  show ?thesis
  proof (rule ledger_invI)
    fix m' x q assume "pots s' (m', x) = Some q"
    then show "pot_end q = x \<and> (\<exists>mg. managers s' m' = Some mg \<and>
           (x \<le> fst (mgr_timestamps mg) \<or> x = snd (mgr_timestamps mg)))"
      using inv_pots [OF i, of m' x q] inv_pots [OF i, of m' x p] p
      by (auto simp add: s' split: if_splits)
  next
    fix m' mg' assume "managers s' m' = Some mg'"
    then show "0 < mgr_duration mg' \<and>
        snd (mgr_timestamps mg') = fst (mgr_timestamps mg') + mgr_duration mg' \<and>
        pots s' (m', fst (mgr_timestamps mg')) \<noteq> None \<and>
        pots s' (m', snd (mgr_timestamps mg')) \<noteq> None"
      using inv_managers [OF i, of m' mg']
      by (auto simp add: s' split: if_splits)
  next
    fix pid' i' tk assume "tickets s' (pid', i') = Some tk"
    then show "\<exists>q. pots s' pid' = Some q \<and> i' < pot_participants q"
      using inv_tickets [OF i, of pid' i' tk] p
      by (auto simp add: s' split: if_splits)
  qed
qed

lemma inv_pot_update:
  assumes i: "ledger_inv s" and p: "pots s pid = Some p"
    and q: "pot_end q = pot_end p" "pot_participants q = pot_participants p"
  shows "ledger_inv (s\<lparr>pots := (pots s)(pid \<mapsto> q)\<rparr>)"
proof (rule ledger_invI)
  let ?s = "s\<lparr>pots := (pots s)(pid \<mapsto> q)\<rparr>"
  fix m' x r assume "pots ?s (m', x) = Some r"
  then show "pot_end r = x \<and> (\<exists>mg. managers ?s m' = Some mg \<and>
           (x \<le> fst (mgr_timestamps mg) \<or> x = snd (mgr_timestamps mg)))"
    using inv_pots [OF i, of m' x r] inv_pots [OF i, of m' x p] p q
    by (auto split: if_splits)
next
  let ?s = "s\<lparr>pots := (pots s)(pid \<mapsto> q)\<rparr>"
  fix m' mg' assume "managers ?s m' = Some mg'"
  then show "0 < mgr_duration mg' \<and>
        snd (mgr_timestamps mg') = fst (mgr_timestamps mg') + mgr_duration mg' \<and>
        pots ?s (m', fst (mgr_timestamps mg')) \<noteq> None \<and>
        pots ?s (m', snd (mgr_timestamps mg')) \<noteq> None"
    using inv_managers [OF i, of m' mg']
    by (auto split: if_splits)
next
  let ?s = "s\<lparr>pots := (pots s)(pid \<mapsto> q)\<rparr>"
  fix pid' i' tk assume "tickets ?s (pid', i') = Some tk"
  then show "\<exists>r. pots ?s pid' = Some r \<and> i' < pot_participants r"
    using inv_tickets [OF i, of pid' i' tk] p q
    by (auto split: if_splits)
qed

lemma inv_exec: "ledger_inv s \<Longrightarrow> exec now op s = Inr s' \<Longrightarrow> ledger_inv s'"
proof (cases op)
  case (Init a t k e d nm)
  then show "ledger_inv s \<Longrightarrow> exec now op s = Inr s' \<Longrightarrow> ledger_inv s'"
    using inv_Init by simp
next
  case (AdvanceRound m)
  then show "ledger_inv s \<Longrightarrow> exec now op s = Inr s' \<Longrightarrow> ledger_inv s'"
    using inv_Advance by simp
next
  case (Enter pid who)
  then show "ledger_inv s \<Longrightarrow> exec now op s = Inr s' \<Longrightarrow> ledger_inv s'"
    using inv_Enter by simp
next
  case (DrawLottery pid acct)
  then show "ledger_inv s \<Longrightarrow> exec now op s = Inr s' \<Longrightarrow> ledger_inv s'"
    by (auto split: option.splits if_splits intro!: inv_pot_update)
next
  case (SettleLottery pid acct shown)
  then show "ledger_inv s \<Longrightarrow> exec now op s = Inr s' \<Longrightarrow> ledger_inv s'"
    by (auto split: option.splits if_splits intro!: inv_pot_update)
qed

lemma reachable_inv: "reachable s \<Longrightarrow> ledger_inv s"
  by (induction rule: reachable.induct) (auto intro: inv_empty inv_exec)

section \<open>The windows of the Pots\<close>

lemma window_empty: "window_inv empty_ledger"
  by (simp add: window_inv_def empty_ledger_def)

lemma window_managers:
  "window_inv s \<Longrightarrow> managers s m = Some mg \<Longrightarrow>
     \<exists>pc pn. pots s (m, fst (mgr_timestamps mg)) = Some pc
       \<and> pots s (m, snd (mgr_timestamps mg)) = Some pn
       \<and> pot_start pc < fst (mgr_timestamps mg)
       \<and> pot_start pn = fst (mgr_timestamps mg)
       \<and> (\<forall>e p. pots s (m, e) = Some p \<longrightarrow>
              e = fst (mgr_timestamps mg) \<or> e = snd (mgr_timestamps mg)
              \<or> e \<le> pot_start pc)"
  unfolding window_inv_def by blast

lemma window_invI:
  assumes "\<And>m mg. managers s m = Some mg \<Longrightarrow>
     \<exists>pc pn. pots s (m, fst (mgr_timestamps mg)) = Some pc
       \<and> pots s (m, snd (mgr_timestamps mg)) = Some pn
       \<and> pot_start pc < fst (mgr_timestamps mg)
       \<and> pot_start pn = fst (mgr_timestamps mg)
       \<and> (\<forall>e p. pots s (m, e) = Some p \<longrightarrow>
              e = fst (mgr_timestamps mg) \<or> e = snd (mgr_timestamps mg)
              \<or> e \<le> pot_start pc)"
  shows "window_inv s"
  unfolding window_inv_def using assms by blast

lemma window_same:
  assumes w: "window_inv s" and mg: "managers s m = Some mg"
    and same: "\<And>e. pots s' (m, e) = pots s (m, e)"
  shows "\<exists>pc pn. pots s' (m, fst (mgr_timestamps mg)) = Some pc
       \<and> pots s' (m, snd (mgr_timestamps mg)) = Some pn
       \<and> pot_start pc < fst (mgr_timestamps mg)
       \<and> pot_start pn = fst (mgr_timestamps mg)
       \<and> (\<forall>e p. pots s' (m, e) = Some p \<longrightarrow>
              e = fst (mgr_timestamps mg) \<or> e = snd (mgr_timestamps mg)
              \<or> e \<le> pot_start pc)"
  using window_managers [OF w mg] unfolding same .

lemma window_Init:
  assumes i: "ledger_inv s" and w: "window_inv s"
    and x: "exec now (Init a t k e d nm) s = Inr s'"
  shows "window_inv s'"
proof -
  let ?p1 = "\<lparr>pot_manager = (a, nm), pot_participants = 0, pot_start = now,
              pot_end = e, pot_winning = 0, pot_request = None\<rparr>"
  let ?p2 = "\<lparr>pot_manager = (a, nm), pot_participants = 0, pot_start = e,
              pot_end = e + d, pot_winning = 0, pot_request = None\<rparr>"
  let ?mg = "\<lparr>mgr_authority = a, mgr_treasury = t, mgr_token = k,
              mgr_duration = d, mgr_timestamps = (e, e + d), mgr_name = nm\<rparr>"
  have n: "managers s (a, nm) = None" and d: "0 < d" and e: "now < e"
    and P: "pots s' = (pots s)(((a, nm), e) \<mapsto> ?p1, ((a, nm), e + d) \<mapsto> ?p2)"
    and M: "managers s' = (managers s)((a, nm) \<mapsto> ?mg)"
    using x [unfolded exec_Init_Inr] by simp_all
  have none: "pots s ((a, nm), y) = None" for y
    using i n by (rule inv_no_manager_no_pot)
  show ?thesis
  proof (rule window_invI)
    fix m mg assume h: "managers s' m = Some mg"
    show "\<exists>pc pn. pots s' (m, fst (mgr_timestamps mg)) = Some pc
       \<and> pots s' (m, snd (mgr_timestamps mg)) = Some pn
       \<and> pot_start pc < fst (mgr_timestamps mg)
       \<and> pot_start pn = fst (mgr_timestamps mg)
       \<and> (\<forall>e p. pots s' (m, e) = Some p \<longrightarrow>
              e = fst (mgr_timestamps mg) \<or> e = snd (mgr_timestamps mg)
              \<or> e \<le> pot_start pc)"
    proof (cases "m = (a, nm)")
      case True
      with h have mg: "mg = ?mg" unfolding M by simp
      have a1: "pots s' (m, e) = Some ?p1" unfolding P True using d by simp
      have a2: "pots s' (m, e + d) = Some ?p2" unfolding P True by simp
      have a3: "y = e \<or> y = e + d" if "pots s' (m, y) = Some p" for y p
        using that none [of y] unfolding P True by (simp split: if_splits)
      have "pots s' (m, e) = Some ?p1 \<and> pots s' (m, e + d) = Some ?p2
          \<and> pot_start ?p1 < e \<and> pot_start ?p2 = e
          \<and> (\<forall>y p. pots s' (m, y) = Some p \<longrightarrow> y = e \<or> y = e + d \<or> y \<le> pot_start ?p1)"
        using a1 a2 e by (auto dest: a3)
      then show ?thesis unfolding mg by simp
    next
      case False
      with h have mg: "managers s m = Some mg" unfolding M by simp
      have "pots s' (m, y) = pots s (m, y)" for y
        unfolding P using False by simp
      with w mg show ?thesis by (rule window_same)
    qed
  qed
qed

lemma window_Advance:
  assumes i: "ledger_inv s" and w: "window_inv s"
    and x: "exec now (AdvanceRound m) s = Inr s'"
  shows "window_inv s'"
proof -
  from x obtain mg where mg: "managers s m = Some mg"
    and s': "s' = s\<lparr>pots := (pots s)((m, snd (mgr_timestamps mg) + mgr_duration mg) \<mapsto>
                  \<lparr>pot_manager = m, pot_participants = 0,
                   pot_start = snd (mgr_timestamps mg),
                   pot_end = snd (mgr_timestamps mg) + mgr_duration mg, pot_winning = 0,
                   pot_request = None\<rparr>),
               managers := (managers s)(m \<mapsto>
                  mg\<lparr>mgr_timestamps := (snd (mgr_timestamps mg),
                       snd (mgr_timestamps mg) + mgr_duration mg)\<rparr>)\<rparr>"
    unfolding exec_Advance_Inr by blast
  let ?cur = "fst (mgr_timestamps mg)"
  let ?nxt = "snd (mgr_timestamps mg)"
  let ?new = "?nxt + mgr_duration mg"
  let ?p = "\<lparr>pot_manager = m, pot_participants = 0, pot_start = ?nxt,
             pot_end = ?new, pot_winning = 0, pot_request = None\<rparr>"
  let ?mg' = "mg\<lparr>mgr_timestamps := (?nxt, ?new)\<rparr>"
  have P: "pots s' = (pots s)((m, ?new) \<mapsto> ?p)"
    and M: "managers s' = (managers s)(m \<mapsto> ?mg')"
    unfolding s' by simp_all
  from inv_managers [OF i mg] have dur: "0 < mgr_duration mg"
    and nxt: "?nxt = ?cur + mgr_duration mg"
    by simp_all
  from window_managers [OF w mg] obtain pc pn where
    pc: "pots s (m, ?cur) = Some pc" and pn: "pots s (m, ?nxt) = Some pn"
    and sc: "pot_start pc < ?cur" and sn: "pot_start pn = ?cur"
    and old: "\<And>y p. pots s (m, y) = Some p \<Longrightarrow> y = ?cur \<or> y = ?nxt \<or> y \<le> pot_start pc"
    by blast
  show ?thesis
  proof (rule window_invI)
    fix m' mg' assume h: "managers s' m' = Some mg'"
    show "\<exists>pc pn. pots s' (m', fst (mgr_timestamps mg')) = Some pc
       \<and> pots s' (m', snd (mgr_timestamps mg')) = Some pn
       \<and> pot_start pc < fst (mgr_timestamps mg')
       \<and> pot_start pn = fst (mgr_timestamps mg')
       \<and> (\<forall>e p. pots s' (m', e) = Some p \<longrightarrow>
              e = fst (mgr_timestamps mg') \<or> e = snd (mgr_timestamps mg')
              \<or> e \<le> pot_start pc)"
    proof (cases "m' = m")
      case True
      with h have mg': "mg' = ?mg'" unfolding M by simp
      have a1: "pots s' (m, ?nxt) = Some pn" unfolding P using pn dur by simp
      have a2: "pots s' (m, ?new) = Some ?p" unfolding P by simp
      have a3: "y = ?nxt \<or> y = ?new \<or> y \<le> pot_start pn" if "pots s' (m, y) = Some p" for y p
      proof (cases "y = ?new")
        case True
        then show ?thesis by simp
      next
        case False
        with that have "pots s (m, y) = Some p" unfolding P by simp
        from old [OF this] sc sn show ?thesis by auto
      qed
      have a4: "pot_start pn < ?nxt" using sn nxt dur by simp
      have "pots s' (m, ?nxt) = Some pn \<and> pots s' (m, ?new) = Some ?p
          \<and> pot_start pn < ?nxt \<and> pot_start ?p = ?nxt
          \<and> (\<forall>y p. pots s' (m, y) = Some p \<longrightarrow> y = ?nxt \<or> y = ?new \<or> y \<le> pot_start pn)"
        using a1 a2 a3 a4 by simp
      then show ?thesis unfolding mg' True by simp
    next
      case False
      with h have m0: "managers s m' = Some mg'" unfolding M by simp
      have "pots s' (m', y) = pots s (m', y)" for y
        unfolding P using False by simp
      with w m0 show ?thesis by (rule window_same)
    qed
  qed
qed

lemma window_pot_update:
  assumes w: "window_inv s" and p: "pots s pid = Some p"
    and q: "pot_start q = pot_start p"
  shows "window_inv (s\<lparr>pots := (pots s)(pid \<mapsto> q)\<rparr>)"
proof (rule window_invI)
  let ?s = "s\<lparr>pots := (pots s)(pid \<mapsto> q)\<rparr>"
  fix m mg assume "managers ?s m = Some mg"
  then have mg: "managers s m = Some mg" by simp
  let ?cur = "fst (mgr_timestamps mg)"
  let ?nxt = "snd (mgr_timestamps mg)"
  from window_managers [OF w mg] obtain pc pn where
    pc: "pots s (m, ?cur) = Some pc" and pn: "pots s (m, ?nxt) = Some pn"
    and sc: "pot_start pc < ?cur" and sn: "pot_start pn = ?cur"
    and old: "\<And>y r. pots s (m, y) = Some r \<Longrightarrow> y = ?cur \<or> y = ?nxt \<or> y \<le> pot_start pc"
    by blast
  let ?pc = "if pid = (m, ?cur) then q else pc"
  let ?pn = "if pid = (m, ?nxt) then q else pn"
  have b1: "pots ?s (m, ?cur) = Some ?pc" using pc by simp
  have b2: "pots ?s (m, ?nxt) = Some ?pn" using pn by simp
  have b3: "pot_start ?pc = pot_start pc" using p pc q by auto
  have b4: "pot_start ?pn = pot_start pn" using p pn q by auto
  have b5: "y = ?cur \<or> y = ?nxt \<or> y \<le> pot_start ?pc" if "pots ?s (m, y) = Some r" for y r
  proof (cases "pid = (m, y)")
    case True
    with p old [of y p] show ?thesis unfolding b3 by simp
  next
    case False
    with that have "pots s (m, y) = Some r" by simp
    from old [OF this] show ?thesis unfolding b3 .
  qed
  have "pots ?s (m, ?cur) = Some ?pc \<and> pots ?s (m, ?nxt) = Some ?pn
       \<and> pot_start ?pc < ?cur \<and> pot_start ?pn = ?cur
       \<and> (\<forall>e r. pots ?s (m, e) = Some r \<longrightarrow> e = ?cur \<or> e = ?nxt \<or> e \<le> pot_start ?pc)"
    using b1 b2 b3 b4 b5 sc sn by presburger
  then show "\<exists>pc pn. pots ?s (m, ?cur) = Some pc \<and> pots ?s (m, ?nxt) = Some pn
       \<and> pot_start pc < ?cur \<and> pot_start pn = ?cur
       \<and> (\<forall>e p. pots ?s (m, e) = Some p \<longrightarrow> e = ?cur \<or> e = ?nxt \<or> e \<le> pot_start pc)"
    by blast
qed

lemma window_tickets:
  "window_inv s \<Longrightarrow> window_inv (s\<lparr>tickets := tk\<rparr>)"
  by (simp add: window_inv_def)

lemma window_exec:
  assumes i: "ledger_inv s" and w: "window_inv s" and x: "exec now op s = Inr s'"
  shows "window_inv s'"
proof (cases op)
  case (Init a t k e d nm)
  with i w x show ?thesis using window_Init by simp
next
  case (AdvanceRound m)
  with i w x show ?thesis using window_Advance by simp
next
  case (Enter pid who)
  with x obtain p where p: "pots s pid = Some p"
    and s': "s' = (s\<lparr>tickets := (tickets s)((pid, pot_participants p) \<mapsto>
                      \<lparr>ticket_owner = who, ticket_index = pot_participants p\<rparr>)\<rparr>)
                   \<lparr>pots := (pots s)(pid \<mapsto>
                      p\<lparr>pot_participants := pot_participants p + 1\<rparr>)\<rparr>"
    by (auto split: option.splits if_splits)
  have "window_inv (s\<lparr>tickets := (tickets s)((pid, pot_participants p) \<mapsto>
                      \<lparr>ticket_owner = who, ticket_index = pot_participants p\<rparr>)\<rparr>)"
    using w by (rule window_tickets)
  from window_pot_update [OF this, of pid p "p\<lparr>pot_participants := pot_participants p + 1\<rparr>"] p
  show ?thesis unfolding s' by simp
next
  case (DrawLottery pid acct)
  with w x show ?thesis
    by (auto split: option.splits if_splits intro!: window_pot_update)
next
  case (SettleLottery pid acct shown)
  with w x show ?thesis
    by (auto split: option.splits if_splits intro!: window_pot_update)
qed

lemma reachable_window: "reachable s \<Longrightarrow> window_inv s"
proof (induction rule: reachable.induct)
  case start
  show ?case by (rule window_empty)
next
  case (step s now op s')
  from window_exec [OF reachable_inv [OF step.hyps(1)] step.IH step.hyps(2)]
  show ?case .
qed

section \<open>The Pots open for entry\<close>

lemma open_window:
  assumes i: "ledger_inv s" and w: "window_inv s" and mg: "managers s m = Some mg"
    and c: "pots s (m, fst (mgr_timestamps mg)) = Some pc"
    and st: "pot_start pc \<le> now" and t: "now < snd (mgr_timestamps mg)"
  shows "open_pots now m s =
     {if now < fst (mgr_timestamps mg) then fst (mgr_timestamps mg)
      else snd (mgr_timestamps mg)}"
proof -
  let ?cur = "fst (mgr_timestamps mg)"
  let ?nxt = "snd (mgr_timestamps mg)"
  from window_managers [OF w mg] c obtain pn where
    pn: "pots s (m, ?nxt) = Some pn" and sn: "pot_start pn = ?cur"
    and old: "\<And>y p. pots s (m, y) = Some p \<Longrightarrow> y = ?cur \<or> y = ?nxt \<or> y \<le> pot_start pc"
    by auto
  have ec: "pot_end pc = ?cur" using inv_pots [OF i c] by simp
  have en: "pot_end pn = ?nxt" using inv_pots [OF i pn] by simp
  show ?thesis
  proof (intro set_eqI iffI)
    fix x assume "x \<in> open_pots now m s"
    then obtain p where p: "pots s (m, x) = Some p" and b: "pot_start p \<le> now"
      and a: "pot_status now p = Active"
      unfolding open_pots_def open_for_entry_def by blast
    have "pot_end p = x" using inv_pots [OF i p] by simp
    with a have f: "now < x"
      by (simp add: pot_status_def split: if_splits)
    from old [OF p] f st consider "x = ?cur" | "x = ?nxt" "x \<noteq> ?cur" by fastforce
    then have "x = (if now < ?cur then ?cur else ?nxt)"
    proof cases
      case 1
      with f show ?thesis by simp
    next
      case 2
      with p pn have "p = pn" by simp
      with b sn 2 show ?thesis by simp
    qed
    then show "x \<in> {if now < ?cur then ?cur else ?nxt}" by simp
  next
    fix x assume "x \<in> {if now < ?cur then ?cur else ?nxt}"
    then have x: "x = (if now < ?cur then ?cur else ?nxt)" by simp
    show "x \<in> open_pots now m s"
    proof (cases "now < ?cur")
      case True
      with x have "pots s (m, x) = Some pc" using c by simp
      moreover have "open_for_entry now pc"
        using True st ec by (simp add: open_for_entry_def pot_status_def)
      ultimately show ?thesis unfolding open_pots_def by blast
    next
      case False
      with x have "pots s (m, x) = Some pn" using pn by simp
      moreover have "open_for_entry now pn"
        using False t sn en by (simp add: open_for_entry_def pot_status_def)
      ultimately show ?thesis unfolding open_pots_def by blast
    qed
  qed
qed

lemma none_open_late:
  assumes i: "ledger_inv s" and mg: "managers s m = Some mg"
    and t: "snd (mgr_timestamps mg) \<le> now"
  shows "open_pots now m s = {}"
proof -
  have False if "x \<in> open_pots now m s" for x
  proof -
    from that obtain p where p: "pots s (m, x) = Some p"
      and a: "pot_status now p = Active"
      unfolding open_pots_def open_for_entry_def by blast
    from inv_pots [OF i p] mg have e: "pot_end p = x"
      and c: "x \<le> fst (mgr_timestamps mg) \<or> x = snd (mgr_timestamps mg)"
      by simp_all
    from inv_managers [OF i mg]
    have "fst (mgr_timestamps mg) \<le> snd (mgr_timestamps mg)" by simp
    with c t have "x \<le> now" by auto
    with a e show False
      by (simp add: pot_status_def split: if_splits)
  qed
  then show ?thesis by blast
qed

lemma open_after_Init:
  assumes i: "ledger_inv s" and w: "window_inv s"
    and x: "exec now (Init a t k e d nm) s = Inr s'"
  shows "open_pots now (a, nm) s' = {e}
     \<and> (\<exists>mg. managers s' (a, nm) = Some mg \<and> mgr_timestamps mg = (e, e + d))"
proof -
  let ?p1 = "\<lparr>pot_manager = (a, nm), pot_participants = 0, pot_start = now,
              pot_end = e, pot_winning = 0, pot_request = None\<rparr>"
  let ?mg = "\<lparr>mgr_authority = a, mgr_treasury = t, mgr_token = k,
              mgr_duration = d, mgr_timestamps = (e, e + d), mgr_name = nm\<rparr>"
  have d: "0 < d" and e: "now < e"
    and P: "pots s' ((a, nm), e) = Some ?p1"
    and M: "managers s' (a, nm) = Some ?mg"
    using x [unfolded exec_Init_Inr] by simp_all
  have c: "pots s' ((a, nm), fst (mgr_timestamps ?mg)) = Some ?p1"
    using P by simp
  have "open_pots now (a, nm) s' =
     {if now < fst (mgr_timestamps ?mg) then fst (mgr_timestamps ?mg)
      else snd (mgr_timestamps ?mg)}"
    using inv_Init [OF i x] window_Init [OF i w x] M c
  proof (rule open_window)
    show "pot_start ?p1 \<le> now" by simp
    show "now < snd (mgr_timestamps ?mg)" using e by simp
  qed
  then have "open_pots now (a, nm) s' = {e}"
    using e by simp
  with M show ?thesis by simp
qed

lemma open_after_Advance:
  assumes i: "ledger_inv s" and w: "window_inv s"
    and x: "exec now (AdvanceRound m) s = Inr s'"
    and mg: "managers s m = Some mg"
    and t: "now < snd (mgr_timestamps mg) + mgr_duration mg"
  shows "\<exists>mg'. managers s' m = Some mg'
     \<and> mgr_timestamps mg' = (snd (mgr_timestamps mg), snd (mgr_timestamps mg) + mgr_duration mg)
     \<and> open_pots now m s' =
         {if now < snd (mgr_timestamps mg) then snd (mgr_timestamps mg)
          else snd (mgr_timestamps mg) + mgr_duration mg}"
proof -
  let ?cur = "fst (mgr_timestamps mg)"
  let ?nxt = "snd (mgr_timestamps mg)"
  let ?new = "?nxt + mgr_duration mg"
  let ?mg' = "mg\<lparr>mgr_timestamps := (?nxt, ?new)\<rparr>"
  from x obtain mg0 where "managers s m = Some mg0"
    and "fst (mgr_timestamps mg0) \<le> now"
    and "s' = s\<lparr>pots := (pots s)((m, snd (mgr_timestamps mg0) + mgr_duration mg0) \<mapsto>
                  \<lparr>pot_manager = m, pot_participants = 0,
                   pot_start = snd (mgr_timestamps mg0),
                   pot_end = snd (mgr_timestamps mg0) + mgr_duration mg0, pot_winning = 0,
                   pot_request = None\<rparr>),
               managers := (managers s)(m \<mapsto>
                  mg0\<lparr>mgr_timestamps := (snd (mgr_timestamps mg0),
                       snd (mgr_timestamps mg0) + mgr_duration mg0)\<rparr>)\<rparr>"
    unfolding exec_Advance_Inr by blast
  with mg have cur: "?cur \<le> now"
    and P: "\<And>y. y \<noteq> ?new \<Longrightarrow> pots s' (m, y) = pots s (m, y)"
    and M: "managers s' m = Some ?mg'"
    by simp_all
  from inv_managers [OF i mg] have dur: "0 < mgr_duration mg" by simp
  from window_managers [OF w mg] obtain pn where
    pn: "pots s (m, ?nxt) = Some pn" and sn: "pot_start pn = ?cur"
    by blast
  have c: "pots s' (m, fst (mgr_timestamps ?mg')) = Some pn"
    using P [of ?nxt] pn dur by simp
  have "open_pots now m s' =
     {if now < fst (mgr_timestamps ?mg') then fst (mgr_timestamps ?mg')
      else snd (mgr_timestamps ?mg')}"
    using inv_Advance [OF i x] window_Advance [OF i w x] M c
  proof (rule open_window)
    show "pot_start pn \<le> now" using sn cur by simp
    show "now < snd (mgr_timestamps ?mg')" using t by simp
  qed
  then have "open_pots now m s' = {if now < ?nxt then ?nxt else ?new}"
    by simp
  with M show ?thesis by simp
qed

text \<open>
  Claim C1, amended. In every reachable state of a PotManager, at every time from the
  start of its current Pot until its next-round end, exactly one Pot of the manager is
  open for entry (it has started and its end timestamp is strictly in the future): the
  current Pot before the current-round end, the next Pot from then on. From the
  next-round end on, no Pot of the manager is open until AdvanceRound runs. In particular,
  immediately after a successful Init exactly one Pot, the first, is open; and
  immediately after a successful AdvanceRound that runs before the end of the Pot it
  creates, exactly one Pot is open: the new current Pot, or the Pot just created when the
  new current Pot has ended already.
\<close>

theorem scheduler_open_pots:
  assumes "reachable s"
  shows "(\<forall>now m mg pc. managers s m = Some mg
              \<and> pots s (m, fst (mgr_timestamps mg)) = Some pc
              \<and> pot_start pc \<le> now \<and> now < snd (mgr_timestamps mg) \<longrightarrow>
            open_pots now m s =
              {if now < fst (mgr_timestamps mg) then fst (mgr_timestamps mg)
               else snd (mgr_timestamps mg)})
       \<and> (\<forall>now m mg. managers s m = Some mg \<and> snd (mgr_timestamps mg) \<le> now \<longrightarrow>
            open_pots now m s = {})
       \<and> (\<forall>now a t k e d nm s'. exec now (Init a t k e d nm) s = Inr s' \<longrightarrow>
            open_pots now (a, nm) s' = {e}
            \<and> (\<exists>mg. managers s' (a, nm) = Some mg \<and> mgr_timestamps mg = (e, e + d)))
       \<and> (\<forall>now m mg s'. exec now (AdvanceRound m) s = Inr s' \<and> managers s m = Some mg
              \<and> now < snd (mgr_timestamps mg) + mgr_duration mg \<longrightarrow>
            (\<exists>mg'. managers s' m = Some mg'
               \<and> mgr_timestamps mg' =
                   (snd (mgr_timestamps mg), snd (mgr_timestamps mg) + mgr_duration mg)
               \<and> open_pots now m s' =
                   {if now < snd (mgr_timestamps mg) then snd (mgr_timestamps mg)
                    else snd (mgr_timestamps mg) + mgr_duration mg}))"
proof -
  note i = reachable_inv [OF assms] and w = reachable_window [OF assms]
  have A: "\<forall>now m mg pc. managers s m = Some mg
              \<and> pots s (m, fst (mgr_timestamps mg)) = Some pc
              \<and> pot_start pc \<le> now \<and> now < snd (mgr_timestamps mg) \<longrightarrow>
            open_pots now m s =
              {if now < fst (mgr_timestamps mg) then fst (mgr_timestamps mg)
               else snd (mgr_timestamps mg)}"
    using open_window [OF i w] by blast
  have B: "\<forall>now m mg. managers s m = Some mg \<and> snd (mgr_timestamps mg) \<le> now \<longrightarrow>
            open_pots now m s = {}"
    using none_open_late [OF i] by blast
  have C: "\<forall>now a t k e d nm s'. exec now (Init a t k e d nm) s = Inr s' \<longrightarrow>
            open_pots now (a, nm) s' = {e}
            \<and> (\<exists>mg. managers s' (a, nm) = Some mg \<and> mgr_timestamps mg = (e, e + d))"
    using open_after_Init [OF i w] by blast
  have D: "\<forall>now m mg s'. exec now (AdvanceRound m) s = Inr s' \<and> managers s m = Some mg
              \<and> now < snd (mgr_timestamps mg) + mgr_duration mg \<longrightarrow>
            (\<exists>mg'. managers s' m = Some mg'
               \<and> mgr_timestamps mg' =
                   (snd (mgr_timestamps mg), snd (mgr_timestamps mg) + mgr_duration mg)
               \<and> open_pots now m s' =
                   {if now < snd (mgr_timestamps mg) then snd (mgr_timestamps mg)
                    else snd (mgr_timestamps mg) + mgr_duration mg})"
    using open_after_Advance [OF i w] by blast
  from A B C D show ?thesis by (intro conjI)
qed

lemma after_init_eq: "exec 1000 daily_init empty_ledger = Inr after_init"
  unfolding daily_init_def exec_Init_Inr
  by (simp add: empty_ledger_def after_init_def)

lemma daily_manager:
  "managers after_init (PublicKey 1, ''daily'') =
     Some \<lparr>mgr_authority = PublicKey 1, mgr_treasury = PublicKey 2, mgr_token = PublicKey 3,
           mgr_duration = 3600, mgr_timestamps = (1300, 4900), mgr_name = ''daily''\<rparr>"
  by (simp add: after_init_def)

lemma daily_current:
  "pots after_init ((PublicKey 1, ''daily''), 1300) =
     Some \<lparr>pot_manager = (PublicKey 1, ''daily''), pot_participants = 0, pot_start = 1000,
           pot_end = 1300, pot_winning = 0, pot_request = None\<rparr>"
  by (simp add: after_init_def)

lemma advance_after_init:
  assumes "1300 \<le> now"
  shows "exec now (AdvanceRound (PublicKey 1, ''daily'')) after_init = Inr daily_advanced"
proof -
  have f: "pots after_init ((PublicKey 1, ''daily''), 8500) = None"
    by (simp add: after_init_def)
  have "daily_advanced = after_init
     \<lparr>pots := (pots after_init)(((PublicKey 1, ''daily''), 8500) \<mapsto>
                  \<lparr>pot_manager = (PublicKey 1, ''daily''), pot_participants = 0,
                   pot_start = 4900, pot_end = 8500, pot_winning = 0,
                   pot_request = None\<rparr>),
      managers := (managers after_init)((PublicKey 1, ''daily'') \<mapsto>
         \<lparr>mgr_authority = PublicKey 1, mgr_treasury = PublicKey 2, mgr_token = PublicKey 3,
          mgr_duration = 3600, mgr_timestamps = (4900, 8500), mgr_name = ''daily''\<rparr>)\<rparr>"
    by (simp add: daily_advanced_def after_init_def)
  then show ?thesis
    unfolding exec_Advance_Inr using assms daily_manager f by simp
qed

theorem scheduler_open_pots_witness:
  "open_pots 1000 (PublicKey 1, ''daily'') after_init = {1300}
   \<and> open_pots 1200 (PublicKey 1, ''daily'') after_init = {1300}
   \<and> open_pots 3000 (PublicKey 1, ''daily'') after_init = {4900}
   \<and> open_pots 5000 (PublicKey 1, ''daily'') after_init = {}
   \<and> exec 2000 (AdvanceRound (PublicKey 1, ''daily'')) after_init = Inr daily_advanced
   \<and> open_pots 2000 (PublicKey 1, ''daily'') daily_advanced = {4900}"
proof -
  let ?m = "(PublicKey 1, ''daily'')"
  let ?mg = "\<lparr>mgr_authority = PublicKey 1, mgr_treasury = PublicKey 2,
      mgr_token = PublicKey 3, mgr_duration = 3600, mgr_timestamps = (1300, 4900),
      mgr_name = ''daily''\<rparr>"
  let ?pc = "\<lparr>pot_manager = ?m, pot_participants = 0, pot_start = 1000,
           pot_end = 1300, pot_winning = 0, pot_request = None\<rparr>"
  have r: "reachable after_init"
    using reachable.step [OF reachable.start after_init_eq] .
  have x: "exec 1000 (Init (PublicKey 1) (PublicKey 2) (PublicKey 3) 1300 3600 ''daily'')
          empty_ledger = Inr after_init"
    using after_init_eq unfolding daily_init_def .
  have c: "pots after_init (?m, fst (mgr_timestamps ?mg)) = Some ?pc"
    using daily_current by simp
  have y: "exec 2000 (AdvanceRound ?m) after_init = Inr daily_advanced"
    by (rule advance_after_init) simp
  note init = scheduler_open_pots [OF reachable.start, THEN conjunct2, THEN conjunct2,
      THEN conjunct1, rule_format, OF x]
  note gen = scheduler_open_pots [OF r, THEN conjunct1, rule_format]
  note late = scheduler_open_pots [OF r, THEN conjunct2, THEN conjunct1, rule_format]
  note adv = scheduler_open_pots [OF r, THEN conjunct2, THEN conjunct2, THEN conjunct2,
      rule_format]
  have A: "open_pots 1000 ?m after_init = {1300}"
    using init by (rule conjunct1)
  have "open_pots 1200 ?m after_init =
      {if 1200 < fst (mgr_timestamps ?mg) then fst (mgr_timestamps ?mg)
       else snd (mgr_timestamps ?mg)}"
    using daily_manager c by (intro gen [where mg = ?mg and pc = ?pc] conjI) simp_all
  then have B: "open_pots 1200 ?m after_init = {1300}"
    by simp
  have "open_pots 3000 ?m after_init =
      {if 3000 < fst (mgr_timestamps ?mg) then fst (mgr_timestamps ?mg)
       else snd (mgr_timestamps ?mg)}"
    using daily_manager c by (intro gen [where mg = ?mg and pc = ?pc] conjI) simp_all
  then have C: "open_pots 3000 ?m after_init = {4900}"
    by simp
  have D: "open_pots 5000 ?m after_init = {}"
    using daily_manager by (intro late [where mg = ?mg] conjI) simp_all
  have "\<exists>mg'. managers daily_advanced ?m = Some mg'
       \<and> mgr_timestamps mg' =
           (snd (mgr_timestamps ?mg), snd (mgr_timestamps ?mg) + mgr_duration ?mg)
       \<and> open_pots 2000 ?m daily_advanced =
           {if 2000 < snd (mgr_timestamps ?mg) then snd (mgr_timestamps ?mg)
            else snd (mgr_timestamps ?mg) + mgr_duration ?mg}"
    using y daily_manager by (intro adv [where mg = ?mg] conjI) simp_all
  then have E: "open_pots 2000 ?m daily_advanced = {4900}"
    by (elim exE conjE) simp
  from A B C D y E show ?thesis by (intro conjI)
qed

lemma after_init_ends:
  "pots after_init ((PublicKey 1, ''daily''), e) = Some p \<Longrightarrow> pot_end p \<le> 4900"
  by (auto simp add: after_init_def split: if_splits)

lemma daily_advanced_ends:
  "pots daily_advanced ((PublicKey 1, ''daily''), e) = Some p \<Longrightarrow> pot_end p \<le> 8500"
  by (auto simp add: daily_advanced_def split: if_splits)

lemma none_open_after:
  assumes "\<And>e p. pots s (m, e) = Some p \<Longrightarrow> pot_end p \<le> now"
  shows "{e. \<exists>p. pots s (m, e) = Some p \<and> now < pot_end p} = {} \<and> open_pots now m s = {}"
proof -
  have "\<not> now < pot_end p" if "pots s (m, e) = Some p" for e p
    using assms [OF that] by simp
  then show ?thesis
    unfolding open_pots_def open_for_entry_def pot_status_def
    by (auto split: if_splits)
qed

text \<open>
  Claim C1, as it is stated, at the lottery "daily": the ledger after its Init at time
  1000 is reachable; at time 5000, no AdvanceRound having run, no Pot of the manager has
  its end timestamp in the future and none is open for entry; and the AdvanceRound that
  runs at time 9000 succeeds and leaves, immediately after it, no Pot with its end
  timestamp in the future, none open for entry.
\<close>

theorem scheduler_one_open_pot_counterexample:
  "exec 1000 daily_init empty_ledger = Inr after_init
   \<and> reachable after_init
   \<and> {e. \<exists>p. pots after_init ((PublicKey 1, ''daily''), e) = Some p \<and> 5000 < pot_end p} = {}
   \<and> open_pots 5000 (PublicKey 1, ''daily'') after_init = {}
   \<and> exec 9000 (AdvanceRound (PublicKey 1, ''daily'')) after_init = Inr daily_advanced
   \<and> reachable daily_advanced
   \<and> {e. \<exists>p. pots daily_advanced ((PublicKey 1, ''daily''), e) = Some p \<and> 9000 < pot_end p}
       = {}
   \<and> open_pots 9000 (PublicKey 1, ''daily'') daily_advanced = {}"
proof -
  have r: "reachable after_init"
    using reachable.step [OF reachable.start after_init_eq] .
  have y: "exec 9000 (AdvanceRound (PublicKey 1, ''daily'')) after_init = Inr daily_advanced"
    by (rule advance_after_init) simp
  have r2: "reachable daily_advanced"
    using reachable.step [OF r y] .
  have a: "pot_end p \<le> 5000" if "pots after_init ((PublicKey 1, ''daily''), e) = Some p"
    for e p
    using after_init_ends [OF that] by simp
  have b: "pot_end p \<le> 9000" if "pots daily_advanced ((PublicKey 1, ''daily''), e) = Some p"
    for e p
    using daily_advanced_ends [OF that] by simp
  note A = none_open_after [of after_init "(PublicKey 1, ''daily'')" 5000, OF a]
  note B = none_open_after [of daily_advanced "(PublicKey 1, ''daily'')" 9000, OF b]
  from after_init_eq r A y r2 B show ?thesis by (intro conjI) simp_all
qed


section \<open>Init\<close>

lemma initPotManager_Inr:
  assumes "initPotManager L c nm mint endTs dur = Inr ixs"
  shows "\<exists>auth mgr b0 firstPot b1 nextPot b2 ks dat.
          wallet c = Some auth \<and> derivePotManagerPDA L auth nm = Inr (mgr, b0)
          \<and> derivePotPDA L mgr endTs = Inr (firstPot, b1)
          \<and> derivePotPDA L mgr (endTs + dur) = Inr (nextPot, b2)
          \<and> ixs = [Instruction PROGRAM_ID ks dat]
          \<and> pubkey (ks ! 4) = firstPot \<and> pubkey (ks ! 5) = nextPot"
proof -
  from assms obtain auth where w: "wallet c = Some auth"
    by (cases "wallet c") (simp_all add: initPotManager_def)
  from assms w obtain mgr b0 where m: "derivePotManagerPDA L auth nm = Inr (mgr, b0)"
    by (cases "derivePotManagerPDA L auth nm") (auto simp add: initPotManager_def)
  from assms w m obtain firstPot b1 where f: "derivePotPDA L mgr endTs = Inr (firstPot, b1)"
    by (cases "derivePotPDA L mgr endTs")
      (auto simp add: initPotManager_def split: sum.splits prod.splits)
  from assms w m f obtain nextPot b2 where n: "derivePotPDA L mgr (endTs + dur) = Inr (nextPot, b2)"
    by (cases "derivePotPDA L mgr (endTs + dur)")
      (auto simp add: initPotManager_def Let_def split: sum.splits prod.splits)
  from assms w m f n have "\<exists>ks dat. ixs = [Instruction PROGRAM_ID ks dat]
          \<and> pubkey (ks ! 4) = firstPot \<and> pubkey (ks ! 5) = nextPot"
    by (auto simp add: initPotManager_def Let_def split: sum.splits prod.splits)
  with w m f n show ?thesis by blast
qed

lemma Init_creates:
  assumes x: "exec now (Init a t k e d nm) s = Inr s'"
  shows "dom (pots s') - dom (pots s) = {((a, nm), e), ((a, nm), e + d)}
     \<and> e \<noteq> e + d
     \<and> pots s' ((a, nm), e) =
         Some \<lparr>pot_manager = (a, nm), pot_participants = 0, pot_start = now,
               pot_end = e, pot_winning = 0, pot_request = None\<rparr>
     \<and> pots s' ((a, nm), e + d) =
         Some \<lparr>pot_manager = (a, nm), pot_participants = 0, pot_start = e,
               pot_end = e + d, pot_winning = 0, pot_request = None\<rparr>
     \<and> (\<exists>mg. managers s' (a, nm) = Some mg \<and> mgr_timestamps mg = (e, e + d))"
proof -
  let ?p1 = "\<lparr>pot_manager = (a, nm), pot_participants = 0, pot_start = now,
              pot_end = e, pot_winning = 0, pot_request = None\<rparr>"
  let ?p2 = "\<lparr>pot_manager = (a, nm), pot_participants = 0, pot_start = e,
              pot_end = e + d, pot_winning = 0, pot_request = None\<rparr>"
  have d: "0 < d"
    and n1: "pots s ((a, nm), e) = None" and n2: "pots s ((a, nm), e + d) = None"
    and P: "pots s' = (pots s)(((a, nm), e) \<mapsto> ?p1, ((a, nm), e + d) \<mapsto> ?p2)"
    and M: "\<exists>mg. managers s' (a, nm) = Some mg \<and> mgr_timestamps mg = (e, e + d)"
    using x [unfolded exec_Init_Inr] by simp_all
  have "dom (pots s') - dom (pots s) = {((a, nm), e), ((a, nm), e + d)}"
    unfolding P using n1 n2 by auto
  moreover have "pots s' ((a, nm), e) = Some ?p1" unfolding P using d by simp
  moreover have "pots s' ((a, nm), e + d) = Some ?p2" unfolding P by simp
  ultimately show ?thesis using d M by simp
qed

lemma Init_scenario:
  assumes r: "reachable s" and n: "managers s (a, nm) = None" and l: "length nm \<le> 32"
  shows "\<exists>s'. exec now (Init a t k (now + 300) 3600 nm) s = Inr s'
          \<and> dom (pots s') - dom (pots s) = {((a, nm), now + 300), ((a, nm), now + 3900)}
          \<and> (\<exists>mg. managers s' (a, nm) = Some mg
                \<and> mgr_timestamps mg = (now + 300, now + 3900))"
proof -
  have none: "pots s ((a, nm), x) = None" for x
    using reachable_inv [OF r] n by (rule inv_no_manager_no_pot)
  have "\<exists>s'. exec now (Init a t k (now + 300) 3600 nm) s = Inr s'"
    unfolding exec_Init_Inr using n l none by simp
  then obtain s' where x: "exec now (Init a t k (now + 300) 3600 nm) s = Inr s'" ..
  from Init_creates [OF x] have "dom (pots s') - dom (pots s) = {((a, nm), now + 300), ((a, nm), now + 300 + 3600)}"
    and "\<exists>mg. managers s' (a, nm) = Some mg \<and> mgr_timestamps mg = (now + 300, now + 300 + 3600)"
    by blast+
  then have "dom (pots s') - dom (pots s) = {((a, nm), now + 300), ((a, nm), now + 3900)}
          \<and> (\<exists>mg. managers s' (a, nm) = Some mg
                \<and> mgr_timestamps mg = (now + 300, now + 3900))"
    by (simp add: add.assoc)
  with x show ?thesis by blast
qed

text \<open>
  Claim C5. Every successful Init(endTimestamp, duration, name) creates exactly two
  Pots, the first ending at endTimestamp and the second at endTimestamp + duration, both
  with zero participants, and sets the manager's timestamp pair to these two values; on a
  reachable ledger without the manager, Init with end timestamp now + 300 and duration
  3600 succeeds, with Pots ending at now + 300 and now + 3900. The instruction
  \<open>initPotManager\<close> builds names, as its fifth and sixth accounts, the Pot addresses
  derived from endTimestamp and from endTimestamp + potDuration.
\<close>

theorem init_creates_two_pots:
  "(\<forall>s'. exec now (Init a t k e d nm) s = Inr s' \<longrightarrow>
       dom (pots s') - dom (pots s) = {((a, nm), e), ((a, nm), e + d)}
     \<and> e \<noteq> e + d
     \<and> pots s' ((a, nm), e) =
         Some \<lparr>pot_manager = (a, nm), pot_participants = 0, pot_start = now,
               pot_end = e, pot_winning = 0, pot_request = None\<rparr>
     \<and> pots s' ((a, nm), e + d) =
         Some \<lparr>pot_manager = (a, nm), pot_participants = 0, pot_start = e,
               pot_end = e + d, pot_winning = 0, pot_request = None\<rparr>
     \<and> (\<exists>mg. managers s' (a, nm) = Some mg \<and> mgr_timestamps mg = (e, e + d)))
   \<and> (reachable s \<and> managers s (a, nm) = None \<and> length nm \<le> 32 \<longrightarrow>
       (\<exists>s'. exec now (Init a t k (now + 300) 3600 nm) s = Inr s'
          \<and> dom (pots s') - dom (pots s) = {((a, nm), now + 300), ((a, nm), now + 3900)}
          \<and> (\<exists>mg. managers s' (a, nm) = Some mg
                \<and> mgr_timestamps mg = (now + 300, now + 3900))))
   \<and> (\<forall>L (c::OpenLottoClient) managerName mint endTs dur ixs.
         initPotManager L c managerName mint endTs dur = Inr ixs \<longrightarrow>
       (\<exists>auth mgr b0 firstPot b1 nextPot b2 ks dat.
          wallet c = Some auth \<and> derivePotManagerPDA L auth managerName = Inr (mgr, b0)
          \<and> derivePotPDA L mgr endTs = Inr (firstPot, b1)
          \<and> derivePotPDA L mgr (endTs + dur) = Inr (nextPot, b2)
          \<and> ixs = [Instruction PROGRAM_ID ks dat]
          \<and> pubkey (ks ! 4) = firstPot \<and> pubkey (ks ! 5) = nextPot))"
proof (intro conjI)
  show "\<forall>s'. exec now (Init a t k e d nm) s = Inr s' \<longrightarrow>
       dom (pots s') - dom (pots s) = {((a, nm), e), ((a, nm), e + d)}
     \<and> e \<noteq> e + d
     \<and> pots s' ((a, nm), e) =
         Some \<lparr>pot_manager = (a, nm), pot_participants = 0, pot_start = now,
               pot_end = e, pot_winning = 0, pot_request = None\<rparr>
     \<and> pots s' ((a, nm), e + d) =
         Some \<lparr>pot_manager = (a, nm), pot_participants = 0, pot_start = e,
               pot_end = e + d, pot_winning = 0, pot_request = None\<rparr>
     \<and> (\<exists>mg. managers s' (a, nm) = Some mg \<and> mgr_timestamps mg = (e, e + d))"
    using Init_creates by blast
  show "reachable s \<and> managers s (a, nm) = None \<and> length nm \<le> 32 \<longrightarrow>
       (\<exists>s'. exec now (Init a t k (now + 300) 3600 nm) s = Inr s'
          \<and> dom (pots s') - dom (pots s) = {((a, nm), now + 300), ((a, nm), now + 3900)}
          \<and> (\<exists>mg. managers s' (a, nm) = Some mg
                \<and> mgr_timestamps mg = (now + 300, now + 3900)))"
    using Init_scenario by blast
  show "\<forall>L (c::OpenLottoClient) managerName mint endTs dur ixs.
         initPotManager L c managerName mint endTs dur = Inr ixs \<longrightarrow>
       (\<exists>auth mgr b0 firstPot b1 nextPot b2 ks dat.
          wallet c = Some auth \<and> derivePotManagerPDA L auth managerName = Inr (mgr, b0)
          \<and> derivePotPDA L mgr endTs = Inr (firstPot, b1)
          \<and> derivePotPDA L mgr (endTs + dur) = Inr (nextPot, b2)
          \<and> ixs = [Instruction PROGRAM_ID ks dat]
          \<and> pubkey (ks ! 4) = firstPot \<and> pubkey (ks ! 5) = nextPot)"
    using initPotManager_Inr by blast
qed

lemma initPotManager_stub:
  "\<exists>ks dat. initPotManager stub_libs wallet_client (js ''daily'') (PublicKey 3) 1300 3600
      = Inr [Instruction PROGRAM_ID ks dat]"
  by (simp add: initPotManager_def wallet_client_def derivePotManagerPDA_def
      deriveTreasuryPDA_def deriveEscrowPDA_def derivePotPDA_def
      findProgramAddressSync_def stub_libs_def toArrayLike_le_def
      SEEDS_MANAGER_def SEEDS_TREASURY_def SEEDS_ESCROW_def SEEDS_POT_def
      length_utf8_js toBuffer_def length_be_bytes length_le_bytes encodeString_bytes Let_def)

lemma derivePotPDA_stub: "derivePotPDA stub_libs m e = Inr r \<Longrightarrow> r = (PublicKey 11, 255)"
  by (auto simp add: derivePotPDA_def findProgramAddressSync_def stub_libs_def
      split: sum.splits if_splits)

theorem init_creates_two_pots_witness:
  "dom (pots after_init) = {((PublicKey 1, ''daily''), 1300), ((PublicKey 1, ''daily''), 4900)}
   \<and> (\<exists>ks dat. initPotManager stub_libs wallet_client (js ''daily'') (PublicKey 3) 1300 3600
          = Inr [Instruction PROGRAM_ID ks dat]
        \<and> pubkey (ks ! 4) = PublicKey 11 \<and> pubkey (ks ! 5) = PublicKey 11)"
proof -
  note inst = init_creates_two_pots [where now = 1000 and a = "PublicKey 1"
      and t = "PublicKey 2" and k = "PublicKey 3" and e = 1300 and d = 3600
      and nm = "''daily''" and s = empty_ledger]
  have x: "exec 1000 (Init (PublicKey 1) (PublicKey 2) (PublicKey 3) 1300 3600 ''daily'')
          empty_ledger = Inr after_init"
    using after_init_eq unfolding daily_init_def .
  from inst [THEN conjunct1, rule_format, OF x]
  have "dom (pots after_init) - dom (pots empty_ledger)
      = {((PublicKey 1, ''daily''), 1300), ((PublicKey 1, ''daily''), 1300 + 3600)}"
    by (rule conjunct1)
  then have A: "dom (pots after_init)
      = {((PublicKey 1, ''daily''), 1300), ((PublicKey 1, ''daily''), 4900)}"
    by (simp add: empty_ledger_def)
  obtain ks dat where i: "initPotManager stub_libs wallet_client (js ''daily'') (PublicKey 3) 1300 3600
      = Inr [Instruction PROGRAM_ID ks dat]"
    using initPotManager_stub by blast
  from inst [THEN conjunct2, THEN conjunct2, rule_format, OF i]
  obtain mgr firstPot b1 nextPot b2 ks' dat' where
    f: "derivePotPDA stub_libs mgr 1300 = Inr (firstPot, b1)"
    and n: "derivePotPDA stub_libs mgr (1300 + 3600) = Inr (nextPot, b2)"
    and e: "[Instruction PROGRAM_ID ks dat] = [Instruction PROGRAM_ID ks' dat']"
    and k: "pubkey (ks' ! 4) = firstPot" "pubkey (ks' ! 5) = nextPot"
    by blast
  from derivePotPDA_stub [OF f] derivePotPDA_stub [OF n] e k
  have "pubkey (ks ! 4) = PublicKey 11 \<and> pubkey (ks ! 5) = PublicKey 11"
    by simp
  with A i show ?thesis by blast
qed


section \<open>Enter\<close>

lemma exec_Enter_Inr:
  "exec now (Enter pid who) s = Inr s' \<longleftrightarrow>
     (\<exists>p. pots s pid = Some p \<and> open_for_entry now p
        \<and> tickets s (pid, pot_participants p) = None
        \<and> s' = s\<lparr>tickets := (tickets s)((pid, pot_participants p) \<mapsto>
                      \<lparr>ticket_owner = who, ticket_index = pot_participants p\<rparr>),
                   pots := (pots s)(pid \<mapsto>
                      p\<lparr>pot_participants := pot_participants p + 1\<rparr>)\<rparr>)"
  by (auto split: option.splits if_splits)

lemma Enter_effect:
  assumes x: "exec now (Enter pid who) s = Inr s'" and p: "pots s pid = Some p"
  shows "tickets s (pid, pot_participants p) = None
     \<and> tickets s' = (tickets s)((pid, pot_participants p) \<mapsto>
           \<lparr>ticket_owner = who, ticket_index = pot_participants p\<rparr>)
     \<and> pots s' pid = Some (p\<lparr>pot_participants := pot_participants p + 1\<rparr>)"
  using x [unfolded exec_Enter_Inr] p by auto

lemma Enter_twice:
  assumes r: "reachable s" and p0: "pots s pid = Some p0" and z: "pot_participants p0 = 0"
    and t1: "open_for_entry now p0" and t2: "open_for_entry now2 p0"
  shows "\<exists>s1 s2 p2. exec now (Enter pid who) s = Inr s1
          \<and> exec now2 (Enter pid who2) s1 = Inr s2
          \<and> tickets s2 (pid, 0) = Some \<lparr>ticket_owner = who, ticket_index = 0\<rparr>
          \<and> tickets s2 (pid, 1) = Some \<lparr>ticket_owner = who2, ticket_index = 1\<rparr>
          \<and> pots s2 pid = Some p2 \<and> pot_participants p2 = 2"
proof -
  have free: "tickets s (pid, i) = None" for i
  proof (cases "tickets s (pid, i)")
    case None
    then show ?thesis .
  next
    case (Some tk)
    from inv_tickets [OF reachable_inv [OF r] Some] p0 z show ?thesis by simp
  qed
  let ?p1 = "p0\<lparr>pot_participants := 1\<rparr>"
  let ?s1 = "s\<lparr>tickets := (tickets s)((pid, 0) \<mapsto> \<lparr>ticket_owner = who, ticket_index = 0\<rparr>),
                pots := (pots s)(pid \<mapsto> ?p1)\<rparr>"
  let ?p2 = "p0\<lparr>pot_participants := 2\<rparr>"
  let ?s2 = "?s1\<lparr>tickets := (tickets ?s1)((pid, 1) \<mapsto> \<lparr>ticket_owner = who2, ticket_index = 1\<rparr>),
                pots := (pots ?s1)(pid \<mapsto> ?p2)\<rparr>"
  have o: "open_for_entry now2 ?p1"
    using t2 by (simp add: open_for_entry_def pot_status_def split: if_splits)
  have e1: "exec now (Enter pid who) s = Inr ?s1"
    unfolding exec_Enter_Inr using p0 z t1 free [of 0] by simp
  have e2: "exec now2 (Enter pid who2) ?s1 = Inr ?s2"
    unfolding exec_Enter_Inr using o free [of 1] by (simp add: numeral_2_eq_2)
  have "tickets ?s2 (pid, 0) = Some \<lparr>ticket_owner = who, ticket_index = 0\<rparr>"
    and "tickets ?s2 (pid, 1) = Some \<lparr>ticket_owner = who2, ticket_index = 1\<rparr>"
    and "pots ?s2 pid = Some ?p2" and "pot_participants ?p2 = 2"
    by simp_all
  with e1 e2 show ?thesis by blast
qed

lemma SEEDS_TICKET_bytes: "SEEDS_TICKET = [116, 105, 99, 107, 101, 116]"
  by (simp add: SEEDS_TICKET_def utf8_js byte_of_def)

lemma deriveTicketPDA_Inr:
  assumes "deriveTicketPDA L potKey n = Inr (ticket, b)"
  shows "\<bar>n\<bar> < 2 ^ 64
     \<and> bumpSearch L [[116, 105, 99, 107, 101, 116], be_bytes 32 (bn potKey),
                      le_bytes 8 (nat \<bar>n\<bar>)] PROGRAM_ID = Some (ticket, b)"
proof -
  from assms have n: "\<bar>n\<bar> < 256 ^ 8"
    by (cases "\<bar>n\<bar> < 256 ^ 8") (simp_all add: deriveTicketPDA_def toArrayLike_le_def)
  with assms have "bumpSearch L [SEEDS_TICKET, toBuffer potKey, le_bytes 8 (nat \<bar>n\<bar>)] PROGRAM_ID
      = Some (ticket, b)"
    by (simp add: deriveTicketPDA_def toArrayLike_le_def findProgramAddressSync_def
        split: if_splits option.splits)
  with n show ?thesis
    by (simp add: SEEDS_TICKET_bytes toBuffer_def)
qed

lemma enterTicket_Inr:
  assumes "enterTicket L c potKey n mint = Inr ixs"
  shows "\<bar>n\<bar> < 2 ^ 64
     \<and> (\<exists>ticket b ks dat.
          bumpSearch L [[116, 105, 99, 107, 101, 116], be_bytes 32 (bn potKey),
                        le_bytes 8 (nat \<bar>n\<bar>)] PROGRAM_ID = Some (ticket, b)
          \<and> ixs \<noteq> [] \<and> last ixs = Instruction PROGRAM_ID ks dat
          \<and> pubkey (ks ! 1) = potKey \<and> pubkey (ks ! 2) = ticket)"
proof -
  from assms obtain user where w: "wallet c = Some user"
    by (cases "wallet c") (simp_all add: enterTicket_def)
  from assms w obtain ticket b where d: "deriveTicketPDA L potKey n = Inr (ticket, b)"
    by (cases "deriveTicketPDA L potKey n") (auto simp add: enterTicket_def)
  from assms w d have "ixs \<noteq> [] \<and> (\<exists>ks dat. last ixs = Instruction PROGRAM_ID ks dat
          \<and> pubkey (ks ! 1) = potKey \<and> pubkey (ks ! 2) = ticket)"
    by (auto simp add: enterTicket_def split: sum.splits prod.splits option.splits)
  with deriveTicketPDA_Inr [OF d] show ?thesis by blast
qed

lemma BN_le_nonneg: "0 \<le> BN_le bs"
  by (induction bs) simp_all

lemma handleEnter_Inr:
  assumes f: "fetchData conn0 potKey = Some p"
    and h: "handleEnter L conn (Some k) potKey (Some p) = Some (Inr ixs)"
  shows "\<exists>d ticket b ks dat. accountData conn0 potKey = Some d
          \<and> totalParticipants p = BN_le (slice d 40 48)
          \<and> bumpSearch L [[116, 105, 99, 107, 101, 116], be_bytes 32 (bn potKey),
                          le_bytes 8 (nat (BN_le (slice d 40 48)))] PROGRAM_ID
              = Some (ticket, b)
          \<and> last ixs = Instruction PROGRAM_ID ks dat
          \<and> pubkey (ks ! 1) = potKey \<and> pubkey (ks ! 2) = ticket"
proof -
  from f obtain d where d: "accountData conn0 potKey = Some d"
    and p: "parsePotAccount d = Some p"
    by (cases "accountData conn0 potKey") (simp_all add: fetchData_def getPot_def)
  from p have t: "totalParticipants p = BN_le (slice d 40 48)"
    unfolding parsePotAccount_total by auto
  from h have "enterTicket L \<lparr>connection = conn, wallet = Some k\<rparr> potKey
      (totalParticipants p) tokenMint = Inr ixs"
    by (simp add: handleEnter_def)
  from enterTicket_Inr [OF this] obtain ticket b ks dat where
    "bumpSearch L [[116, 105, 99, 107, 101, 116], be_bytes 32 (bn potKey),
                   le_bytes 8 (nat \<bar>totalParticipants p\<bar>)] PROGRAM_ID = Some (ticket, b)"
    and "last ixs = Instruction PROGRAM_ID ks dat"
    and "pubkey (ks ! 1) = potKey" and "pubkey (ks ! 2) = ticket"
    by blast
  moreover have "\<bar>totalParticipants p\<bar> = BN_le (slice d 40 48)"
    unfolding t using BN_le_nonneg [of "slice d 40 48"] by simp
  ultimately show ?thesis
    using d t by auto
qed

text \<open>
  Claim C4. A successful Enter on a Pot with participant count n creates the new Ticket
  at index n, where no Ticket was, and makes the count n + 1; on a reachable ledger, two
  Enters on a Pot of count 0 that is open for entry succeed and create the Tickets at
  index 0 and at index 1, and the count becomes 2. The instruction that \<open>enterTicket\<close>
  builds names the pot as its second account and, as its third, the address the bump
  search gives for the program and the three seeds: the bytes of "ticket", the 32 bytes
  of the pot's key, and the eight little-endian bytes of the participant count it was
  given. The lottery page gives it the count that \<open>getPot\<close> decoded from bytes 40 to 47
  of the Pot's account.
\<close>

theorem enter_sequential_index:
  "(\<forall>s' p. exec now (Enter pid who) s = Inr s' \<and> pots s pid = Some p \<longrightarrow>
       tickets s (pid, pot_participants p) = None
     \<and> tickets s' = (tickets s)((pid, pot_participants p) \<mapsto>
           \<lparr>ticket_owner = who, ticket_index = pot_participants p\<rparr>)
     \<and> pots s' pid = Some (p\<lparr>pot_participants := pot_participants p + 1\<rparr>))
   \<and> (\<forall>p0 now2 who2. reachable s \<and> pots s pid = Some p0 \<and> pot_participants p0 = 0
          \<and> open_for_entry now p0 \<and> open_for_entry now2 p0 \<longrightarrow>
       (\<exists>s1 s2 p2. exec now (Enter pid who) s = Inr s1
          \<and> exec now2 (Enter pid who2) s1 = Inr s2
          \<and> tickets s2 (pid, 0) = Some \<lparr>ticket_owner = who, ticket_index = 0\<rparr>
          \<and> tickets s2 (pid, 1) = Some \<lparr>ticket_owner = who2, ticket_index = 1\<rparr>
          \<and> pots s2 pid = Some p2 \<and> pot_participants p2 = 2))
   \<and> (\<forall>L (c::OpenLottoClient) potKey n mint ixs.
         enterTicket L c potKey n mint = Inr ixs \<longrightarrow>
       \<bar>n\<bar> < 2 ^ 64
       \<and> (\<exists>ticket b ks dat.
            bumpSearch L [[116, 105, 99, 107, 101, 116], be_bytes 32 (bn potKey),
                          le_bytes 8 (nat \<bar>n\<bar>)] PROGRAM_ID = Some (ticket, b)
            \<and> ixs \<noteq> [] \<and> last ixs = Instruction PROGRAM_ID ks dat
            \<and> pubkey (ks ! 1) = potKey \<and> pubkey (ks ! 2) = ticket))
   \<and> (\<forall>L conn0 conn k potKey p ixs.
         fetchData conn0 potKey = Some p
         \<and> handleEnter L conn (Some k) potKey (Some p) = Some (Inr ixs) \<longrightarrow>
       (\<exists>d ticket b ks dat. accountData conn0 potKey = Some d
          \<and> totalParticipants p = BN_le (slice d 40 48)
          \<and> bumpSearch L [[116, 105, 99, 107, 101, 116], be_bytes 32 (bn potKey),
                          le_bytes 8 (nat (BN_le (slice d 40 48)))] PROGRAM_ID
              = Some (ticket, b)
          \<and> last ixs = Instruction PROGRAM_ID ks dat
          \<and> pubkey (ks ! 1) = potKey \<and> pubkey (ks ! 2) = ticket))"
proof -
  have A: "\<forall>s' p. exec now (Enter pid who) s = Inr s' \<and> pots s pid = Some p \<longrightarrow>
       tickets s (pid, pot_participants p) = None
     \<and> tickets s' = (tickets s)((pid, pot_participants p) \<mapsto>
           \<lparr>ticket_owner = who, ticket_index = pot_participants p\<rparr>)
     \<and> pots s' pid = Some (p\<lparr>pot_participants := pot_participants p + 1\<rparr>)"
    using Enter_effect by blast
  have B: "\<forall>p0 now2 who2. reachable s \<and> pots s pid = Some p0 \<and> pot_participants p0 = 0
          \<and> open_for_entry now p0 \<and> open_for_entry now2 p0 \<longrightarrow>
       (\<exists>s1 s2 p2. exec now (Enter pid who) s = Inr s1
          \<and> exec now2 (Enter pid who2) s1 = Inr s2
          \<and> tickets s2 (pid, 0) = Some \<lparr>ticket_owner = who, ticket_index = 0\<rparr>
          \<and> tickets s2 (pid, 1) = Some \<lparr>ticket_owner = who2, ticket_index = 1\<rparr>
          \<and> pots s2 pid = Some p2 \<and> pot_participants p2 = 2)"
    using Enter_twice by blast
  have C: "\<forall>L (c::OpenLottoClient) potKey n mint ixs.
         enterTicket L c potKey n mint = Inr ixs \<longrightarrow>
       \<bar>n\<bar> < 2 ^ 64
       \<and> (\<exists>ticket b ks dat.
            bumpSearch L [[116, 105, 99, 107, 101, 116], be_bytes 32 (bn potKey),
                          le_bytes 8 (nat \<bar>n\<bar>)] PROGRAM_ID = Some (ticket, b)
            \<and> ixs \<noteq> [] \<and> last ixs = Instruction PROGRAM_ID ks dat
            \<and> pubkey (ks ! 1) = potKey \<and> pubkey (ks ! 2) = ticket)"
    using enterTicket_Inr by blast
  have D: "\<forall>L conn0 conn k potKey p ixs.
         fetchData conn0 potKey = Some p
         \<and> handleEnter L conn (Some k) potKey (Some p) = Some (Inr ixs) \<longrightarrow>
       (\<exists>d ticket b ks dat. accountData conn0 potKey = Some d
          \<and> totalParticipants p = BN_le (slice d 40 48)
          \<and> bumpSearch L [[116, 105, 99, 107, 101, 116], be_bytes 32 (bn potKey),
                          le_bytes 8 (nat (BN_le (slice d 40 48)))] PROGRAM_ID
              = Some (ticket, b)
          \<and> last ixs = Instruction PROGRAM_ID ks dat
          \<and> pubkey (ks ! 1) = potKey \<and> pubkey (ks ! 2) = ticket)"
    using handleEnter_Inr by blast
  from A B C D show ?thesis by (intro conjI)
qed

lemma be_bytes_3: "be_bytes 32 3 = replicate 31 0 @ [3]"
  by code_simp

lemma le_bytes_2: "le_bytes 8 2 = [2, 0, 0, 0, 0, 0, 0, 0]"
  by code_simp

lemma entry_fetch:
  "\<exists>p. fetchData entry_connection (PublicKey 3) = Some p \<and> totalParticipants p = 2
      \<and> endTimestamp p = 100"
  by (simp add: fetchData_def getPot_def entry_connection_def parsePotAccount_total
      entry_pot_def slice_def BN_le_zeros)

lemma entry_seeds:
  "deriveTicketPDA entry_libs (PublicKey 3) 2 = Inr (entry_ticket, 255)
   \<and> deriveEscrowPDA entry_libs = Inr (PublicKey
        734741241448183383027553431277473750227495116060244862364544705737514988982, 254)
   \<and> deriveTreasuryPDA entry_libs = Inr (PublicKey
        25927672080648667024141798927007250153137146454913941682627234365367238032714, 252)"
  by (simp add: deriveTicketPDA_def deriveEscrowPDA_def deriveTreasuryPDA_def
      toArrayLike_le_def findProgramAddressSync_def entry_libs_def
      SEEDS_TICKET_def SEEDS_ESCROW_def SEEDS_TREASURY_def utf8_js byte_of_def
      toBuffer_def be_bytes_3 le_bytes_2)

lemma entry_run:
  "enterTicket entry_libs \<lparr>connection = entry_connection, wallet = Some entry_wallet\<rparr>
     (PublicKey 3) 2 tokenMint =
   Inr [CreateAssociatedTokenAccount entry_wallet
          (PublicKey
            14199099760926189176236315454014193703181802579676423747372966195221780895177)
          entry_wallet tokenMint,
        Instruction PROGRAM_ID
          [\<lparr>pubkey = entry_wallet, isSigner = True, isWritable = True\<rparr>,
           \<lparr>pubkey = PublicKey 3, isSigner = False, isWritable = True\<rparr>,
           \<lparr>pubkey = entry_ticket, isSigner = False, isWritable = True\<rparr>,
           \<lparr>pubkey = PublicKey
              14199099760926189176236315454014193703181802579676423747372966195221780895177,
            isSigner = False, isWritable = True\<rparr>,
           \<lparr>pubkey = PublicKey
              734741241448183383027553431277473750227495116060244862364544705737514988982,
            isSigner = False, isWritable = True\<rparr>,
           \<lparr>pubkey = PublicKey
              25927672080648667024141798927007250153137146454913941682627234365367238032714,
            isSigner = False, isWritable = True\<rparr>,
           \<lparr>pubkey = tokenMint, isSigner = False, isWritable = False\<rparr>,
           \<lparr>pubkey = TOKEN_PROGRAM_ID, isSigner = False, isWritable = False\<rparr>,
           \<lparr>pubkey = SystemProgram_programId, isSigner = False, isWritable = False\<rparr>]
          [42, 17, 11, 16, 1, 34, 133, 24]]"
proof -
  have a: "getAssociatedTokenAddress entry_libs tokenMint entry_wallet = Inr (PublicKey
      14199099760926189176236315454014193703181802579676423747372966195221780895177)"
    by (simp add: entry_libs_def)
  have n: "accountData entry_connection (PublicKey
      14199099760926189176236315454014193703181802579676423747372966195221780895177) = None"
    by (simp add: entry_connection_def)
  have g: "getDiscriminator entry_libs ''enter_ticket'' = [42, 17, 11, 16, 1, 34, 133, 24]"
    by (simp add: getDiscriminator_def entry_libs_def slice_def)
  show ?thesis
    by (simp add: enterTicket_def entry_seeds a n g)
qed

theorem enter_sequential_index_witness:
  "(\<exists>s1 p1. exec 1100 (Enter daily_first (PublicKey 7)) after_init = Inr s1
          \<and> tickets s1 (daily_first, 0) = Some \<lparr>ticket_owner = PublicKey 7, ticket_index = 0\<rparr>
          \<and> pots s1 daily_first = Some p1 \<and> pot_participants p1 = 1)
   \<and> (\<exists>s1 s2 p2. exec 1100 (Enter daily_first (PublicKey 7)) after_init = Inr s1
          \<and> exec 1200 (Enter daily_first (PublicKey 8)) s1 = Inr s2
          \<and> tickets s2 (daily_first, 0) = Some \<lparr>ticket_owner = PublicKey 7, ticket_index = 0\<rparr>
          \<and> tickets s2 (daily_first, 1) = Some \<lparr>ticket_owner = PublicKey 8, ticket_index = 1\<rparr>
          \<and> pots s2 daily_first = Some p2 \<and> pot_participants p2 = 2)
   \<and> (\<exists>p ixs ks dat. fetchData entry_connection (PublicKey 3) = Some p
          \<and> totalParticipants p = 2
          \<and> handleEnter entry_libs entry_connection (Some entry_wallet) (PublicKey 3) (Some p)
              = Some (Inr ixs)
          \<and> last ixs = Instruction PROGRAM_ID ks dat
          \<and> pubkey (ks ! 1) = PublicKey 3 \<and> pubkey (ks ! 2) = entry_ticket)"
proof -
  note inst = enter_sequential_index [where now = 1100 and pid = daily_first
      and who = "PublicKey 7" and s = after_init]
  let ?p0 = "\<lparr>pot_manager = (PublicKey 1, ''daily''), pot_participants = 0,
           pot_start = 1000, pot_end = 1300, pot_winning = 0, pot_request = None\<rparr>"
  have r: "reachable after_init"
    using reachable.step [OF reachable.start after_init_eq] .
  have p: "pots after_init daily_first = Some ?p0"
    by (simp add: after_init_def daily_first_def)
  have h: "reachable after_init \<and> pots after_init daily_first = Some ?p0
      \<and> pot_participants ?p0 = 0 \<and> open_for_entry 1100 ?p0 \<and> open_for_entry 1200 ?p0"
    using r p by (simp add: open_for_entry_def pot_status_def)
  from inst [THEN conjunct2, THEN conjunct1, rule_format, OF h]
  have A: "\<exists>s1 s2 p2. exec 1100 (Enter daily_first (PublicKey 7)) after_init = Inr s1
          \<and> exec 1200 (Enter daily_first (PublicKey 8)) s1 = Inr s2
          \<and> tickets s2 (daily_first, 0) = Some \<lparr>ticket_owner = PublicKey 7, ticket_index = 0\<rparr>
          \<and> tickets s2 (daily_first, 1) = Some \<lparr>ticket_owner = PublicKey 8, ticket_index = 1\<rparr>
          \<and> pots s2 daily_first = Some p2 \<and> pot_participants p2 = 2" .
  from A obtain s1 where x: "exec 1100 (Enter daily_first (PublicKey 7)) after_init = Inr s1"
    by blast
  from x p have xp: "exec 1100 (Enter daily_first (PublicKey 7)) after_init = Inr s1
      \<and> pots after_init daily_first = Some ?p0"
    by (rule conjI)
  from inst [THEN conjunct1, rule_format, OF xp]
  have "tickets s1 (daily_first, 0) = Some \<lparr>ticket_owner = PublicKey 7, ticket_index = 0\<rparr>
      \<and> pots s1 daily_first = Some (?p0\<lparr>pot_participants := 1\<rparr>)
      \<and> pot_participants (?p0\<lparr>pot_participants := 1\<rparr>) = 1"
    by simp
  with x have Z: "\<exists>s1 p1. exec 1100 (Enter daily_first (PublicKey 7)) after_init = Inr s1
          \<and> tickets s1 (daily_first, 0) = Some \<lparr>ticket_owner = PublicKey 7, ticket_index = 0\<rparr>
          \<and> pots s1 daily_first = Some p1 \<and> pot_participants p1 = 1"
    by blast
  obtain q where f: "fetchData entry_connection (PublicKey 3) = Some q"
    and c: "totalParticipants q = 2"
    using entry_fetch by blast
  obtain ixs where
    e: "enterTicket entry_libs \<lparr>connection = entry_connection, wallet = Some entry_wallet\<rparr>
      (PublicKey 3) 2 tokenMint = Inr ixs"
    using entry_run by blast
  then have g: "handleEnter entry_libs entry_connection (Some entry_wallet) (PublicKey 3)
      (Some q) = Some (Inr ixs)"
    by (simp add: handleEnter_def c)
  from inst [THEN conjunct2, THEN conjunct2, THEN conjunct1, rule_format, OF e]
  have "\<exists>ticket b. bumpSearch entry_libs [[116, 105, 99, 107, 101, 116],
        be_bytes 32 (bn (PublicKey 3)), le_bytes 8 (nat \<bar>2\<bar>)] PROGRAM_ID = Some (ticket, b)"
    by blast
  from f g have fg: "fetchData entry_connection (PublicKey 3) = Some q
      \<and> handleEnter entry_libs entry_connection (Some entry_wallet) (PublicKey 3) (Some q)
          = Some (Inr ixs)"
    by (rule conjI)
  from inst [THEN conjunct2, THEN conjunct2, THEN conjunct2, rule_format, OF fg]
  obtain d ticket b ks dat where d: "accountData entry_connection (PublicKey 3) = Some d"
    and t: "totalParticipants q = BN_le (slice d 40 48)"
    and s: "bumpSearch entry_libs [[116, 105, 99, 107, 101, 116],
        be_bytes 32 (bn (PublicKey 3)), le_bytes 8 (nat (BN_le (slice d 40 48)))] PROGRAM_ID
          = Some (ticket, b)"
    and l: "last ixs = Instruction PROGRAM_ID ks dat"
    and k: "pubkey (ks ! 1) = PublicKey 3" "pubkey (ks ! 2) = ticket"
    by blast
  from t c have "nat (BN_le (slice d 40 48)) = 2"
    by simp
  with s have "ticket = entry_ticket"
    by (simp add: entry_libs_def be_bytes_3 le_bytes_2)
  with f c g l k have "\<exists>p ixs ks dat. fetchData entry_connection (PublicKey 3) = Some p
          \<and> totalParticipants p = 2
          \<and> handleEnter entry_libs entry_connection (Some entry_wallet) (PublicKey 3) (Some p)
              = Some (Inr ixs)
          \<and> last ixs = Instruction PROGRAM_ID ks dat
          \<and> pubkey (ks ! 1) = PublicKey 3 \<and> pubkey (ks ! 2) = entry_ticket"
    by blast
  with Z A show ?thesis by (intro conjI)
qed


section \<open>The failures of Init\<close>

lemma derivePotManagerPDA_long:
  "32 < length (utf8 nm) \<Longrightarrow>
     derivePotManagerPDA L auth nm = Inl (TypeError ''Max seed length exceeded'')"
  by (simp add: derivePotManagerPDA_def findProgramAddressSync_def)

lemma initPotManager_long:
  assumes "32 < length (utf8 nm)"
  shows "initPotManager L c nm mint endTs dur =
     (case wallet c of None \<Rightarrow> Inl (Error ''Wallet not connected'')
      | Some auth \<Rightarrow> Inl (TypeError ''Max seed length exceeded''))"
  using assms by (simp add: initPotManager_def derivePotManagerPDA_long split: option.splits)

text \<open>
  Claim C6. Init fails whenever the end timestamp is not strictly in the future (a timing
  error) and whenever the name exceeds 32 bytes, and the ledger after such a submission is
  the ledger before it: no record is created. For a name of more than 32 bytes the client's
  \<open>initPotManager\<close> itself raises, while it derives the manager's address, and hands no
  instruction to \<open>sendTransaction\<close>; the bytes of the client's name are those of its
  UTF-8 encoding.
\<close>

theorem init_rejects:
  "(e \<le> now \<or> 32 < length nm \<longrightarrow>
      (\<exists>err. exec now (Init a t k e d nm) s = Inl err)
      \<and> submit now (Init a t k e d nm) s = s)
   \<and> (e \<le> now \<longrightarrow> exec now (Init a t k e d nm) s = Inl EndTimestampNotInFuture)
   \<and> (now < e \<and> 32 < length nm \<longrightarrow> exec now (Init a t k e d nm) s = Inl NameTooLong)
   \<and> (\<forall>L (c::OpenLottoClient) managerName mint endTs dur.
        32 < length (utf8 managerName) \<longrightarrow>
        initPotManager L c managerName mint endTs dur =
          (case wallet c of None \<Rightarrow> Inl (Error ''Wallet not connected'')
           | Some auth \<Rightarrow> Inl (TypeError ''Max seed length exceeded'')))"
proof (intro conjI)
  show "e \<le> now \<or> 32 < length nm \<longrightarrow>
      (\<exists>err. exec now (Init a t k e d nm) s = Inl err)
      \<and> submit now (Init a t k e d nm) s = s"
    by (auto simp add: submit_def)
  show "e \<le> now \<longrightarrow> exec now (Init a t k e d nm) s = Inl EndTimestampNotInFuture"
    by simp
  show "now < e \<and> 32 < length nm \<longrightarrow> exec now (Init a t k e d nm) s = Inl NameTooLong"
    by simp
  show "\<forall>L (c::OpenLottoClient) managerName mint endTs dur.
        32 < length (utf8 managerName) \<longrightarrow>
        initPotManager L c managerName mint endTs dur =
          (case wallet c of None \<Rightarrow> Inl (Error ''Wallet not connected'')
           | Some auth \<Rightarrow> Inl (TypeError ''Max seed length exceeded''))"
    using initPotManager_long by blast
qed

theorem init_rejects_witness:
  "exec 1000 (Init (PublicKey 1) (PublicKey 2) (PublicKey 3) 1000 3600 ''daily'') empty_ledger
     = Inl EndTimestampNotInFuture
   \<and> submit 1000 (Init (PublicKey 1) (PublicKey 2) (PublicKey 3) 1000 3600 ''daily'')
       empty_ledger = empty_ledger
   \<and> exec 1000 (Init (PublicKey 1) (PublicKey 2) (PublicKey 3) 1300 3600 long_name)
       empty_ledger = Inl NameTooLong
   \<and> initPotManager stub_libs wallet_client (js long_name) (PublicKey 3) 1300 3600
       = Inl (TypeError ''Max seed length exceeded'')"
proof -
  note t1 = init_rejects [where e = 1000 and now = 1000 and nm = "''daily''"
      and a = "PublicKey 1" and t = "PublicKey 2" and k = "PublicKey 3" and d = 3600
      and s = empty_ledger]
  note t2 = init_rejects [where e = 1300 and now = 1000 and nm = long_name
      and a = "PublicKey 1" and t = "PublicKey 2" and k = "PublicKey 3" and d = 3600
      and s = empty_ledger]
  have l: "32 < length long_name"
    by (simp add: long_name_def)
  have l8: "32 < length (utf8 (js long_name))"
    by (simp add: long_name_def length_utf8_js list_all_iff)
  have w: "wallet wallet_client = Some (PublicKey 1)"
    by (simp add: wallet_client_def)
  from t1 have A: "exec 1000 (Init (PublicKey 1) (PublicKey 2) (PublicKey 3) 1000 3600 ''daily'')
      empty_ledger = Inl EndTimestampNotInFuture"
    and B: "submit 1000 (Init (PublicKey 1) (PublicKey 2) (PublicKey 3) 1000 3600 ''daily'')
       empty_ledger = empty_ledger"
    by blast+
  from t2 l have C: "exec 1000 (Init (PublicKey 1) (PublicKey 2) (PublicKey 3) 1300 3600 long_name)
       empty_ledger = Inl NameTooLong"
    by simp
  from t2 l8 have "initPotManager stub_libs wallet_client (js long_name) (PublicKey 3) 1300 3600
       = (case wallet wallet_client of None \<Rightarrow> Inl (Error ''Wallet not connected'')
           | Some auth \<Rightarrow> Inl (TypeError ''Max seed length exceeded''))"
    by blast
  then have D: "initPotManager stub_libs wallet_client (js long_name) (PublicKey 3) 1300 3600
       = Inl (TypeError ''Max seed length exceeded'')"
    unfolding w by simp
  from A B C D show ?thesis by (intro conjI)
qed

end
